theory Spec2Isabelle
  imports Main "HOL-Library.Word"
begin

unbundle bit_operations_syntax

section \<open>Data model of align454.c\<close>

text \<open>
  The embedding follows \<^verbatim>\<open>align454.c\<close> and \<^verbatim>\<open>qxalign.c\<close>.
  \<^item> \<^verbatim>\<open>cigar_t\<close> (\<^verbatim>\<open>uint32_t\<close>) and the run-length counters are \<open>32 word\<close>;
    \<^verbatim>\<open>size_t\<close> is \<open>64 word\<close> (an LP64 platform, pointers of 8 bytes).
  \<^item> Scores are C \<^verbatim>\<open>int\<close>, 32 bits wide. The two initialisers of row 0 compute them
    as the machine does, reduced to 32 bits in two's complement (\<open>int32\<close>); signed
    overflow is undefined in C, and their theorem is stated for the executions without
    it. The recurrence of \<^verbatim>\<open>asw_align\<close> is modelled on unbounded \<open>int\<close>: what is proved
    of it relates the candidates of a cell to the choice among them and to the trace
    cell, which holds for any arithmetic.
  \<^item> A pointer into a buffer is the buffer (a list) and an index. An access outside the
    buffer is undefined behaviour in C; the model returns the error \<open>OutOfBounds\<close> there.
  \<^item> The model is the build with \<^verbatim>\<open>NDEBUG\<close>: the header defines \<^verbatim>\<open>DEBUG\<close> only
    without it, so the \<^verbatim>\<open>assert\<close>s and the three score matrices kept for printing
    (\<^verbatim>\<open>matPen\<close>, \<^verbatim>\<open>matIns\<close>, \<^verbatim>\<open>matDel\<close>, written and never read by the aligner)
    are compiled out.
  \<^item> The penalty tables are filled by \<^verbatim>\<open>asw_init\<close> in double-precision floating
    point (\<^verbatim>\<open>pow\<close>, \<^verbatim>\<open>log10\<close>, \<^verbatim>\<open>round\<close>); they are fields of the engine record
    that the alignment functions only read.
\<close>

type_synonym cigar_t = "32 word"
type_synonym size_t = "64 word"

definition PHRED_RANGE :: nat where "PHRED_RANGE = 94"

definition AMBIGUOUS_BASE :: char where "AMBIGUOUS_BASE = CHR ''N''"

definition IS_MATCH :: "char \<Rightarrow> char \<Rightarrow> bool" where
  "IS_MATCH a b = (a = b \<or> b = AMBIGUOUS_BASE)"

definition BAM_CIGAR_SHIFT :: nat where "BAM_CIGAR_SHIFT = 4"
definition BAM_CIGAR_MASK :: cigar_t where "BAM_CIGAR_MASK = push_bit BAM_CIGAR_SHIFT 1 - 1"

definition BAM_CMATCH :: cigar_t where "BAM_CMATCH = 0"
definition BAM_CINS :: cigar_t where "BAM_CINS = 1"
definition BAM_CDEL :: cigar_t where "BAM_CDEL = 2"
definition BAM_CREF_SKIP :: cigar_t where "BAM_CREF_SKIP = 3"
definition BAM_CSOFT_CLIP :: cigar_t where "BAM_CSOFT_CLIP = 4"
definition BAM_CHARD_CLIP :: cigar_t where "BAM_CHARD_CLIP = 5"
definition BAM_CPAD :: cigar_t where "BAM_CPAD = 6"
definition BAM_CSEQ_MATCH :: cigar_t where "BAM_CSEQ_MATCH = 7"
definition BAM_CSEQ_MISMATCH :: cigar_t where "BAM_CSEQ_MISMATCH = 8"

lemmas bam_defs = BAM_CIGAR_SHIFT_def BAM_CIGAR_MASK_def BAM_CMATCH_def BAM_CINS_def
  BAM_CDEL_def BAM_CREF_SKIP_def BAM_CSOFT_CLIP_def BAM_CHARD_CLIP_def BAM_CPAD_def
  BAM_CSEQ_MATCH_def BAM_CSEQ_MISMATCH_def

text \<open>\<^verbatim>\<open>cigar >> BAM_CIGAR_SHIFT\<close> and \<^verbatim>\<open>cigar & BAM_CIGAR_MASK\<close>.\<close>

definition cigar_len :: "cigar_t \<Rightarrow> 32 word" where
  "cigar_len cigar = drop_bit BAM_CIGAR_SHIFT cigar"

definition cigar_op :: "cigar_t \<Rightarrow> 32 word" where
  "cigar_op cigar = cigar AND BAM_CIGAR_MASK"

text \<open>\<^verbatim>\<open>(z << BAM_CIGAR_SHIFT) | op\<close> on \<^verbatim>\<open>uint32_t\<close>.\<close>

definition cigar_pack :: "32 word \<Rightarrow> 32 word \<Rightarrow> cigar_t" where
  "cigar_pack z op = push_bit BAM_CIGAR_SHIFT z OR op"

datatype error = EmptyInput | OutOfBounds | CorruptTrace | CigarOverflow | AllocError

text \<open>
  \<^verbatim>\<open>vecPen_lastRow\<close> is a pointer that aliases one of the two rolling score rows.
\<close>

datatype row_ptr = Row_m | Row_m1

record Alignment_ASW =
  phred_offset :: int
  match_penalty :: "int list"
  mismatch_penalty :: "int list"
  gopen_penalty :: "int list"
  gext_penalty :: "int list"
  GAP_OPEN_EXTEND :: int
  GAP_EXTEND :: int
  db :: "char list"
  subdb :: nat
  query :: "char list"
  subquery :: nat
  qual :: "8 word list"
  subqual :: nat
  db_len :: size_t
  subdb_len :: size_t
  query_len :: size_t
  subquery_len :: size_t
  vecPen_m_act :: "int list"
  vecPen_m1_act :: "int list"
  vecIns_m_act :: "int list"
  vecIns_m1_act :: "int list"
  I_ext_m_act :: "32 word list"
  I_ext_m1_act :: "32 word list"
  vecPen_lastRow :: row_ptr
  matTra :: "cigar_t list list"
  opt_score :: int
  opt_score_col :: size_t
  rcigar :: "cigar_t list"
  cigar_begin :: int
  cigar_end :: int
  offset :: size_t

text \<open>
  The fields \<open>subdb\<close>, \<open>subquery\<close> and \<open>subqual\<close> are the offsets of the sub-views in
  \<open>db\<close>, \<open>query\<close> and \<open>qual\<close> (the C pointers \<^verbatim>\<open>db + clip_head\<close> and so on);
  \<open>cigar_begin\<close> and \<open>cigar_end\<close> are indices into \<open>rcigar\<close>.
\<close>

text \<open>
  A table is indexed through a pointer moved down by \<^verbatim>\<open>phred_offset\<close>:
  \<^verbatim>\<open>(al->gopen_penalty - al->phred_offset)[qq]\<close>.
\<close>

definition pen_index_ok :: "int list \<Rightarrow> int \<Rightarrow> 8 word \<Rightarrow> bool" where
  "pen_index_ok tab off qq = (0 \<le> uint qq - off \<and> uint qq - off < int (length tab))"

definition pen_at :: "int list \<Rightarrow> int \<Rightarrow> 8 word \<Rightarrow> int" where
  "pen_at tab off qq = tab ! nat (uint qq - off)"

section \<open>Filling row 0: asw\_align\_init and asw\_align\_init\_semi\<close>

text \<open>
  The value of an \<^verbatim>\<open>int\<close> expression: the mathematical result reduced to 32 bits and read
  in two's complement. It is the result itself when that fits.
\<close>

definition int32 :: "int \<Rightarrow> int" where
  "int32 x = sint (word_of_int x :: 32 word)"

record init_state =
  i_storedDel_score :: int
  i_vecPen_m :: "int list"
  i_vecIns_m :: "int list"
  i_rowTra :: "cigar_t list"
  i_I_ext_m :: "32 word list"

text \<open>
  The body of the loop of \<^verbatim>\<open>asw_align_init\<close> at \<open>n\<close>, with \<open>n1 = n + 1\<close>. The trace
  cell is computed on \<^verbatim>\<open>size_t\<close> and stored into a \<^verbatim>\<open>uint32_t\<close>.
\<close>

definition init_step :: "int \<Rightarrow> int \<Rightarrow> nat \<Rightarrow> init_state \<Rightarrow> init_state" where
  "init_step GE gopen_true_pen n s =
     (let n1 = n + 1;
          storedDel = int32 (i_storedDel_score s + GE);
          vecPen = (i_vecPen_m s)[n1 := storedDel];
          vecIns = (i_vecIns_m s)[n1 := int32 (vecPen ! n1 + gopen_true_pen)];
          tra = (i_rowTra s)
                  [n1 := ucast (push_bit BAM_CIGAR_SHIFT (word_of_nat n1 :: size_t)
                                  OR ucast BAM_CDEL)];
          ext = (i_I_ext_m s)[n1 := 0]
      in \<lparr>i_storedDel_score = storedDel, i_vecPen_m = vecPen, i_vecIns_m = vecIns,
          i_rowTra = tra, i_I_ext_m = ext\<rparr>)"

text \<open>The body of the loop of \<^verbatim>\<open>asw_align_init_semi\<close>.\<close>

definition init_semi_step :: "int \<Rightarrow> nat \<Rightarrow> init_state \<Rightarrow> init_state" where
  "init_semi_step gopen_true_pen n s =
     (let n1 = n + 1;
          vecPen = (i_vecPen_m s)[n1 := 0];
          vecIns = (i_vecIns_m s)[n1 := int32 (vecPen ! n1 + gopen_true_pen)];
          tra = (i_rowTra s)
                  [n1 := ucast (push_bit BAM_CIGAR_SHIFT (word_of_nat n1 :: size_t)
                                  OR ucast BAM_CDEL)];
          ext = (i_I_ext_m s)[n1 := 0]
      in s\<lparr>i_vecPen_m := vecPen, i_vecIns_m := vecIns, i_rowTra := tra, i_I_ext_m := ext\<rparr>)"

text \<open>
  Both initialisers read \<^verbatim>\<open>m_subqual[0]\<close> and the two gap tables, and write the cells
  \<open>0 .. subdb_len\<close> of the "previous" rows and of row 0 of the trace matrix.
\<close>

definition init_in_bounds :: "Alignment_ASW \<Rightarrow> bool" where
  "init_in_bounds al =
     (subqual al < length (qual al)
      \<and> pen_index_ok (gopen_penalty al) (phred_offset al) (qual al ! subqual al)
      \<and> pen_index_ok (gext_penalty al) (phred_offset al) (qual al ! subqual al)
      \<and> unat (subdb_len al) < length (vecPen_m_act al)
      \<and> unat (subdb_len al) < length (vecIns_m_act al)
      \<and> unat (subdb_len al) < length (I_ext_m_act al)
      \<and> 0 < length (matTra al)
      \<and> unat (subdb_len al) < length (matTra al ! 0))"

definition asw_align_init :: "Alignment_ASW \<Rightarrow> error + Alignment_ASW" where
  "asw_align_init al =
     (if \<not> init_in_bounds al then Inl OutOfBounds
      else
        let qq = qual al ! subqual al;
            gopen_true_pen = int32 (pen_at (gopen_penalty al) (phred_offset al) qq
                                    - pen_at (gext_penalty al) (phred_offset al) qq);
            vecPen0 = (vecPen_m_act al)[0 := 0];
            s0 = \<lparr>i_storedDel_score =
                    int32 (vecPen0 ! 0 + int32 (GAP_OPEN_EXTEND al - GAP_EXTEND al)),
                  i_vecPen_m = vecPen0,
                  i_vecIns_m = (vecIns_m_act al)[0 := int32 (vecPen0 ! 0 + gopen_true_pen)],
                  i_rowTra = (matTra al ! 0)[0 := cigar_pack 0 BAM_CSEQ_MATCH],
                  i_I_ext_m = (I_ext_m_act al)[0 := 0]\<rparr>;
            s = fold (init_step (GAP_EXTEND al) gopen_true_pen) [0..<unat (subdb_len al)] s0
        in Inr (al\<lparr>vecPen_m_act := i_vecPen_m s, vecIns_m_act := i_vecIns_m s,
                   I_ext_m_act := i_I_ext_m s, matTra := (matTra al)[0 := i_rowTra s]\<rparr>))"

definition asw_align_init_semi :: "Alignment_ASW \<Rightarrow> error + Alignment_ASW" where
  "asw_align_init_semi al =
     (if \<not> init_in_bounds al then Inl OutOfBounds
      else
        let qq = qual al ! subqual al;
            gopen_true_pen = int32 (pen_at (gopen_penalty al) (phred_offset al) qq
                                    - pen_at (gext_penalty al) (phred_offset al) qq);
            vecPen0 = (vecPen_m_act al)[0 := 0];
            s0 = \<lparr>i_storedDel_score = 0,
                  i_vecPen_m = vecPen0,
                  i_vecIns_m = (vecIns_m_act al)[0 := int32 (vecPen0 ! 0 + gopen_true_pen)],
                  i_rowTra = (matTra al ! 0)[0 := cigar_pack 0 BAM_CSEQ_MATCH],
                  i_I_ext_m = (I_ext_m_act al)[0 := 0]\<rparr>;
            s = fold (init_semi_step gopen_true_pen) [0..<unat (subdb_len al)] s0
        in Inr (al\<lparr>vecPen_m_act := i_vecPen_m s, vecIns_m_act := i_vecIns_m s,
                   I_ext_m_act := i_I_ext_m s, matTra := (matTra al)[0 := i_rowTra s]\<rparr>))"

section \<open>The recurrence: asw\_align\<close>

text \<open>The variables that the inner loop of \<^verbatim>\<open>asw_align\<close> updates.\<close>

record row_state =
  storedDel_score :: int
  cD :: "32 word"
  vecPen_m1 :: "int list"
  vecIns_m1 :: "int list"
  I_ext_m1 :: "32 word list"
  rowTra :: "cigar_t list"

text \<open>The values that are fixed while one row is filled.\<close>

record row_env =
  e_GAP_OPEN_EXTEND :: int
  e_GAP_EXTEND :: int
  e_match_pen :: int
  e_mismatch_pen :: int
  e_gopen_pen :: int
  e_gext_pen :: int
  e_cq :: char
  e_subdb :: "char list"
  e_vecPen_m :: "int list"
  e_vecIns_m :: "int list"
  e_I_ext_m :: "32 word list"

text \<open>The candidates of the cell in column \<open>n + 1\<close>.\<close>

definition wD_open :: "row_env \<Rightarrow> row_state \<Rightarrow> nat \<Rightarrow> int" where
  "wD_open e s n = vecPen_m1 s ! n + e_GAP_OPEN_EXTEND e"

definition wD_extend :: "row_env \<Rightarrow> row_state \<Rightarrow> int" where
  "wD_extend e s = storedDel_score s + e_GAP_EXTEND e"

definition wI_open :: "row_env \<Rightarrow> nat \<Rightarrow> int" where
  "wI_open e n = e_vecPen_m e ! (n + 1) + e_gopen_pen e"

definition wI_extend :: "row_env \<Rightarrow> nat \<Rightarrow> int" where
  "wI_extend e n = e_vecIns_m e ! (n + 1) + e_gext_pen e"

definition is_seq_match :: "row_env \<Rightarrow> nat \<Rightarrow> bool" where
  "is_seq_match e n = IS_MATCH (e_subdb e ! n) (e_cq e)"

text \<open>
  The two gap candidates after the choice between opening and extending, with their run
  lengths, and the diagonal candidate with its operation.
\<close>

definition wD :: "row_env \<Rightarrow> row_state \<Rightarrow> nat \<Rightarrow> int" where
  "wD e s n = (if wD_open e s n < wD_extend e s then wD_open e s n else wD_extend e s)"

definition cD_next :: "row_env \<Rightarrow> row_state \<Rightarrow> nat \<Rightarrow> 32 word" where
  "cD_next e s n = (if wD_open e s n < wD_extend e s then 1 else cD s + 1)"

definition wI :: "row_env \<Rightarrow> nat \<Rightarrow> int" where
  "wI e n = (if wI_open e n < wI_extend e n then wI_open e n else wI_extend e n)"

definition cI :: "row_env \<Rightarrow> nat \<Rightarrow> 32 word" where
  "cI e n = (if wI_open e n < wI_extend e n then 1 else e_I_ext_m e ! (n + 1) + 1)"

definition wM :: "row_env \<Rightarrow> nat \<Rightarrow> int" where
  "wM e n = (if is_seq_match e n then e_vecPen_m e ! n + e_match_pen e
             else e_vecPen_m e ! n + e_mismatch_pen e)"

definition mstate :: "row_env \<Rightarrow> nat \<Rightarrow> 32 word" where
  "mstate e n = (if is_seq_match e n then BAM_CSEQ_MATCH else BAM_CSEQ_MISMATCH)"

text \<open>
  The body of the inner loop of \<^verbatim>\<open>asw_align\<close> at \<open>n\<close>, with \<open>n1 = n + 1\<close>: the
  choice among the three candidates (order of preference M, I, D) and the stores.
\<close>

definition align_cell :: "row_env \<Rightarrow> nat \<Rightarrow> row_state \<Rightarrow> row_state" where
  "align_cell e n s =
     (let n1 = n + 1;
          (tra, pen) =
            (if wI e n < wM e n
             then (if wD e s n < wI e n
                   then (cigar_pack (cD_next e s n) BAM_CDEL, wD e s n)
                   else (cigar_pack (cI e n) BAM_CINS, wI e n))
             else if wD e s n < wM e n
             then (cigar_pack (cD_next e s n) BAM_CDEL, wD e s n)
             else (cigar_pack 1 (mstate e n), wM e n))
      in \<lparr>storedDel_score = wD e s n, cD = cD_next e s n,
          vecPen_m1 = (vecPen_m1 s)[n1 := pen],
          vecIns_m1 = (vecIns_m1 s)[n1 := wI e n],
          I_ext_m1 = (I_ext_m1 s)[n1 := cI e n],
          rowTra = (rowTra s)[n1 := tra]\<rparr>)"

text \<open>
  The local variables of \<^verbatim>\<open>asw_align\<close> that live across rows: the two pointers of each
  rolling pair (swapped after every row) and the trace matrix.
\<close>

record align_locals =
  l_vecPen_m :: "int list"
  l_vecPen_m1 :: "int list"
  l_vecIns_m :: "int list"
  l_vecIns_m1 :: "int list"
  l_I_ext_m :: "32 word list"
  l_I_ext_m1 :: "32 word list"
  l_matTra :: "cigar_t list list"

definition row_env_of :: "Alignment_ASW \<Rightarrow> align_locals \<Rightarrow> nat \<Rightarrow> row_env" where
  "row_env_of al l m =
     (let qq = qual al ! (subqual al + m)
      in \<lparr>e_GAP_OPEN_EXTEND = GAP_OPEN_EXTEND al,
          e_GAP_EXTEND = GAP_EXTEND al,
          e_match_pen = pen_at (match_penalty al) (phred_offset al) qq,
          e_mismatch_pen = pen_at (mismatch_penalty al) (phred_offset al) qq,
          e_gopen_pen = pen_at (gopen_penalty al) (phred_offset al) qq,
          e_gext_pen = pen_at (gext_penalty al) (phred_offset al) qq,
          e_cq = query al ! (subquery al + m),
          e_subdb = drop (subdb al) (db al),
          e_vecPen_m = l_vecPen_m l,
          e_vecIns_m = l_vecIns_m l,
          e_I_ext_m = l_I_ext_m l\<rparr>)"

text \<open>The state of a row before its inner loop: column 0 is a vertical move.\<close>

definition row_start :: "row_env \<Rightarrow> align_locals \<Rightarrow> nat \<Rightarrow> row_state" where
  "row_start e l m1 =
     (let wI_ext = e_vecIns_m e ! 0 + e_gext_pen e;
          cI0 = e_I_ext_m e ! 0 + 1;
          vecPen = (l_vecPen_m1 l)[0 := wI_ext]
      in \<lparr>storedDel_score = vecPen ! 0 + (e_GAP_OPEN_EXTEND e - e_GAP_EXTEND e),
          cD = 0,
          vecPen_m1 = vecPen,
          vecIns_m1 = (l_vecIns_m1 l)[0 := wI_ext],
          I_ext_m1 = (l_I_ext_m1 l)[0 := cI0],
          rowTra = (l_matTra l ! m1)[0 := cigar_pack cI0 BAM_CINS]\<rparr>)"

text \<open>The body of the outer loop at \<open>m\<close>, with \<open>m1 = m + 1\<close>, the swaps included.\<close>

definition align_row :: "Alignment_ASW \<Rightarrow> nat \<Rightarrow> align_locals \<Rightarrow> align_locals" where
  "align_row al m l =
     (let m1 = m + 1;
          e = row_env_of al l m;
          s = fold (align_cell e) [0..<unat (subdb_len al)] (row_start e l m1)
      in \<lparr>l_vecPen_m = vecPen_m1 s, l_vecPen_m1 = l_vecPen_m l,
          l_vecIns_m = vecIns_m1 s, l_vecIns_m1 = l_vecIns_m l,
          l_I_ext_m = I_ext_m1 s, l_I_ext_m1 = l_I_ext_m l,
          l_matTra = (l_matTra l)[m1 := rowTra s]\<rparr>)"

text \<open>
  What \<^verbatim>\<open>asw_align\<close> reads and writes: the query and quality bytes of every row, the
  four tables at each quality, the reference bytes of every column, the cells
  \<open>0 .. subdb_len\<close> of the six rolling rows and of the rows \<open>1 .. subquery_len\<close> of the
  trace matrix. With no query row the function touches nothing.
\<close>

definition align_in_bounds :: "Alignment_ASW \<Rightarrow> bool" where
  "align_in_bounds al =
     (subquery_len al = 0 \<or>
      (subquery al + unat (subquery_len al) \<le> length (query al)
       \<and> subqual al + unat (subquery_len al) \<le> length (qual al)
       \<and> list_all (\<lambda>m.
             pen_index_ok (match_penalty al) (phred_offset al) (qual al ! (subqual al + m))
           \<and> pen_index_ok (mismatch_penalty al) (phred_offset al) (qual al ! (subqual al + m))
           \<and> pen_index_ok (gopen_penalty al) (phred_offset al) (qual al ! (subqual al + m))
           \<and> pen_index_ok (gext_penalty al) (phred_offset al) (qual al ! (subqual al + m)))
           [0..<unat (subquery_len al)]
       \<and> subdb al + unat (subdb_len al) \<le> length (db al)
       \<and> unat (subdb_len al) < length (vecPen_m_act al)
       \<and> unat (subdb_len al) < length (vecPen_m1_act al)
       \<and> unat (subdb_len al) < length (vecIns_m_act al)
       \<and> unat (subdb_len al) < length (vecIns_m1_act al)
       \<and> unat (subdb_len al) < length (I_ext_m_act al)
       \<and> unat (subdb_len al) < length (I_ext_m1_act al)
       \<and> unat (subquery_len al) < length (matTra al)
       \<and> list_all (\<lambda>m1. unat (subdb_len al) < length (matTra al ! m1))
           [1..<unat (subquery_len al) + 1]))"

definition align_locals_of :: "Alignment_ASW \<Rightarrow> align_locals" where
  "align_locals_of al =
     \<lparr>l_vecPen_m = vecPen_m_act al, l_vecPen_m1 = vecPen_m1_act al,
      l_vecIns_m = vecIns_m_act al, l_vecIns_m1 = vecIns_m1_act al,
      l_I_ext_m = I_ext_m_act al, l_I_ext_m1 = I_ext_m1_act al,
      l_matTra = matTra al\<rparr>"

text \<open>
  The struct keeps its six row pointers; the swaps exchange local pointers only. After an
  even number of rows the local \<^verbatim>\<open>vecPen_m\<close> is the buffer of \<^verbatim>\<open>al->vecPen_m_act\<close>,
  after an odd number it is the buffer of \<^verbatim>\<open>al->vecPen_m1_act\<close>.
\<close>

definition asw_align :: "Alignment_ASW \<Rightarrow> error + Alignment_ASW" where
  "asw_align al =
     (if \<not> align_in_bounds al then Inl OutOfBounds
      else
        let l = fold (align_row al) [0..<unat (subquery_len al)] (align_locals_of al)
        in if even (unat (subquery_len al))
           then Inr (al\<lparr>vecPen_m_act := l_vecPen_m l, vecPen_m1_act := l_vecPen_m1 l,
                        vecIns_m_act := l_vecIns_m l, vecIns_m1_act := l_vecIns_m1 l,
                        I_ext_m_act := l_I_ext_m l, I_ext_m1_act := l_I_ext_m1 l,
                        matTra := l_matTra l, vecPen_lastRow := Row_m\<rparr>)
           else Inr (al\<lparr>vecPen_m_act := l_vecPen_m1 l, vecPen_m1_act := l_vecPen_m l,
                        vecIns_m_act := l_vecIns_m1 l, vecIns_m1_act := l_vecIns_m l,
                        I_ext_m_act := l_I_ext_m1 l, I_ext_m1_act := l_I_ext_m l,
                        matTra := l_matTra l, vecPen_lastRow := Row_m1\<rparr>))"

section \<open>asw\_locate\_minscore\<close>

definition lastRow :: "Alignment_ASW \<Rightarrow> int list" where
  "lastRow al = (case vecPen_lastRow al of Row_m \<Rightarrow> vecPen_m_act al | Row_m1 \<Rightarrow> vecPen_m1_act al)"

definition minscore_step :: "int list \<Rightarrow> nat \<Rightarrow> int \<times> nat \<Rightarrow> int \<times> nat" where
  "minscore_step vecPen_m n1 acc =
     (if vecPen_m ! n1 < fst acc then (vecPen_m ! n1, n1) else acc)"

definition asw_locate_minscore :: "Alignment_ASW \<Rightarrow> error + (int \<times> Alignment_ASW)" where
  "asw_locate_minscore al =
     (if \<not> unat (subdb_len al) < length (lastRow al) then Inl OutOfBounds
      else
        let r = fold (minscore_step (lastRow al)) [1..<unat (subdb_len al) + 1]
                  (lastRow al ! 0, 0)
        in Inr (fst r, al\<lparr>opt_score := fst r, opt_score_col := word_of_nat (snd r)\<rparr>))"

section \<open>The binding: Qxalign\_align\<close>

text \<open>
  \<^verbatim>\<open>Qxalign_align\<close> after its argument has been parsed into \<open>semi\<close>. The result is the
  Python value or the exception, with the engine as the call leaves it. The exception
  raised for an empty sub-view is \<^verbatim>\<open>IndexError\<close>, here \<open>EmptyInput\<close>. After undefined
  behaviour in the engine the returned state has no meaning.
\<close>

definition Qxalign_align :: "bool \<Rightarrow> Alignment_ASW \<Rightarrow> (error + int) \<times> Alignment_ASW" where
  "Qxalign_align semi al =
     (if subdb_len al = 0 \<or> subquery_len al = 0 then (Inl EmptyInput, al)
      else
        case (if semi then asw_align_init_semi al else asw_align_init al) of
          Inl e \<Rightarrow> (Inl e, al)
        | Inr al1 \<Rightarrow>
            (case asw_align al1 of
               Inl e \<Rightarrow> (Inl e, al1)
             | Inr al2 \<Rightarrow>
                 (case asw_locate_minscore al2 of
                    Inl e \<Rightarrow> (Inl e, al2)
                  | Inr (score, al3) \<Rightarrow> (Inr score, al3))))"

section \<open>asw\_trace\<close>

text \<open>
  The variables of the traceback loop. \<^verbatim>\<open>m1\<close> and \<^verbatim>\<open>n1\<close> are C \<^verbatim>\<open>int\<close>;
  \<^verbatim>\<open>m1 -= z\<close> subtracts a \<^verbatim>\<open>uint32_t\<close> below \<open>2 ^ 28\<close> from a positive \<^verbatim>\<open>int\<close>, which
  cannot leave the range of \<^verbatim>\<open>int\<close>, and a negative index is an access out of bounds.
  \<open>t_rc\<close> is the index of \<^verbatim>\<open>rc\<close> in \<^verbatim>\<open>rcigar\<close>; \<^verbatim>\<open>z\<close> and \<^verbatim>\<open>state\<close> are the two
  parts of \<open>t_cigar\<close>. \<open>t_over\<close> records that a store through \<^verbatim>\<open>rc\<close> fell outside
  \<^verbatim>\<open>rcigar\<close>.
\<close>

record trace_state =
  t_m1 :: int
  t_n1 :: int
  t_cigar :: cigar_t
  t_rc :: int
  t_rcigar :: "cigar_t list"
  t_over :: bool

definition tra_in_bounds :: "cigar_t list list \<Rightarrow> int \<Rightarrow> int \<Rightarrow> bool" where
  "tra_in_bounds mat m1 n1 =
     (0 \<le> m1 \<and> nat m1 < length mat \<and> 0 \<le> n1 \<and> nat n1 < length (mat ! nat m1))"

definition tra_at :: "cigar_t list list \<Rightarrow> int \<Rightarrow> int \<Rightarrow> cigar_t" where
  "tra_at mat m1 n1 = mat ! nat m1 ! nat n1"

text \<open>
  The \<^verbatim>\<open>do ... while (state == st && m1 > 0)\<close> loop of the cases
  \<^verbatim>\<open>BAM_CSEQ_MATCH\<close> and \<^verbatim>\<open>BAM_CSEQ_MISMATCH\<close>, on
  \<open>(num_matches, m1, n1, cigar)\<close>. \<open>None\<close> is a loop that does not end.
\<close>

partial_function (option) match_run ::
  "cigar_t list list \<Rightarrow> 32 word \<Rightarrow> 32 word \<times> int \<times> int \<times> cigar_t
     \<Rightarrow> (error + 32 word \<times> int \<times> int \<times> cigar_t) option" where
  "match_run mat st v =
     (case v of (num_matches, m1, n1, cigar) \<Rightarrow>
        let z = cigar_len cigar;
            num_matches' = num_matches + z;
            m1' = m1 - uint z;
            n1' = n1 - uint z
        in if \<not> tra_in_bounds mat m1' n1' then Some (Inl OutOfBounds)
           else
             let cigar' = tra_at mat m1' n1'
             in if cigar_op cigar' = st \<and> m1' > 0
                then match_run mat st (num_matches', m1', n1', cigar')
                else Some (Inr (num_matches', m1', n1', cigar')))"

declare match_run.simps [code]

definition rc_in_bounds :: "trace_state \<Rightarrow> bool" where
  "rc_in_bounds s = (0 \<le> t_rc s \<and> nat (t_rc s) < length (t_rcigar s))"

text \<open>
  \<^verbatim>\<open>*rc = c; --rc;\<close>. The code does not compare \<^verbatim>\<open>rc\<close> with the start of the buffer, and
  a store outside \<^verbatim>\<open>rcigar\<close> is undefined behaviour in C. The walk goes on after it and
  never reads the buffer, so the model goes on as well: it leaves the store out and
  records it in \<open>t_over\<close>.
\<close>

definition store_rc :: "cigar_t \<Rightarrow> trace_state \<Rightarrow> trace_state" where
  "store_rc c s =
     (if rc_in_bounds s
      then s\<lparr>t_rc := t_rc s - 1, t_rcigar := (t_rcigar s)[nat (t_rc s) := c]\<rparr>
      else s\<lparr>t_rc := t_rc s - 1, t_over := True\<rparr>)"

text \<open>The \<^verbatim>\<open>while (m1 > 0) switch (state)\<close> loop.\<close>

partial_function (option) trace_loop ::
  "cigar_t list list \<Rightarrow> trace_state \<Rightarrow> (error + trace_state) option" where
  "trace_loop mat s =
     (if \<not> t_m1 s > 0 then Some (Inr s)
      else
        let state = cigar_op (t_cigar s); z = cigar_len (t_cigar s)
        in if state = BAM_CSEQ_MATCH \<or> state = BAM_CSEQ_MISMATCH then
             Option.bind (match_run mat state (0, t_m1 s, t_n1 s, t_cigar s))
               (\<lambda>r. case r of
                  Inl e \<Rightarrow> Some (Inl e)
                | Inr (num_matches, m1', n1', cigar') \<Rightarrow>
                    trace_loop mat
                      ((store_rc (cigar_pack num_matches state) s)
                         \<lparr>t_m1 := m1', t_n1 := n1', t_cigar := cigar'\<rparr>))
           else if state = BAM_CDEL then
             (if \<not> tra_in_bounds mat (t_m1 s) (t_n1 s - uint z) then Some (Inl OutOfBounds)
              else trace_loop mat
                     ((store_rc (t_cigar s) s)
                        \<lparr>t_n1 := t_n1 s - uint z,
                         t_cigar := tra_at mat (t_m1 s) (t_n1 s - uint z)\<rparr>))
           else if state = BAM_CINS then
             (if \<not> tra_in_bounds mat (t_m1 s - uint z) (t_n1 s) then Some (Inl OutOfBounds)
              else trace_loop mat
                     ((store_rc (t_cigar s) s)
                        \<lparr>t_m1 := t_m1 s - uint z,
                         t_cigar := tra_at mat (t_m1 s - uint z) (t_n1 s)\<rparr>))
           else Some (Inl CorruptTrace))"

declare trace_loop.simps [code]

text \<open>
  \<^verbatim>\<open>realloc\<close> of a buffer of cells: the common prefix is kept, the new cells are not
  initialised (here 0). \<open>alloc_ok\<close> says which requests, in bytes, the allocator grants.
\<close>

definition realloc_cells :: "'a::zero list \<Rightarrow> nat \<Rightarrow> 'a list" where
  "realloc_cells xs k = take k xs @ replicate (k - length xs) 0"

text \<open>
  \<^verbatim>\<open>asw_trace\<close>. The casts \<^verbatim>\<open>(int)al->subquery_len\<close> and \<^verbatim>\<open>(int)al->opt_score_col\<close>
  keep the low 32 bits, read as two's complement; \<^verbatim>\<open>al->offset = n1\<close> converts back.
  When a store fell outside the buffer the engine that the code leaves has no meaning;
  the model returns \<open>CigarOverflow\<close> in its place.
\<close>

definition asw_trace :: "(size_t \<Rightarrow> bool) \<Rightarrow> Alignment_ASW \<Rightarrow> (error + Alignment_ASW) option" where
  "asw_trace alloc_ok al =
     (if \<not> alloc_ok (4 * (subquery_len al + 4)) then Some (Inl AllocError)
      else
        let buf = realloc_cells (rcigar al) (unat (4 * (subquery_len al + 4)) div 4);
            m1 = sint (ucast (subquery_len al) :: 32 word);
            n1 = sint (ucast (opt_score_col al) :: 32 word)
        in if \<not> tra_in_bounds (matTra al) m1 n1 then Some (Inl OutOfBounds)
           else
             Option.bind
               (trace_loop (matTra al)
                  \<lparr>t_m1 = m1, t_n1 = n1, t_cigar = tra_at (matTra al) m1 n1,
                   t_rc = int (unat (subquery_len al)) + 1, t_rcigar = buf, t_over = False\<rparr>)
               (\<lambda>r. case r of
                  Inl e \<Rightarrow> Some (Inl e)
                | Inr s \<Rightarrow>
                    if t_over s then Some (Inl CigarOverflow)
                    else
                      Some (Inr (al\<lparr>rcigar := t_rcigar s, offset := word_of_int (t_n1 s),
                                    cigar_begin := t_rc s + 1,
                                    cigar_end := int (unat (subquery_len al)) + 2\<rparr>))))"

text \<open>The CIGAR that the engine holds: the cells from \<open>cigar_begin\<close> up to \<open>cigar_end\<close>.\<close>

definition cigar_of :: "Alignment_ASW \<Rightarrow> cigar_t list" where
  "cigar_of al =
     take (nat (cigar_end al - cigar_begin al)) (drop (nat (cigar_begin al)) (rcigar al))"

section \<open>Post-processing of the CIGAR\<close>

definition buf_in_bounds :: "'a list \<Rightarrow> int \<Rightarrow> bool" where
  "buf_in_bounds buf i = (0 \<le> i \<and> nat i < length buf)"

subsection \<open>asw\_append\_softclip\<close>

text \<open>
  \<^verbatim>\<open>while (clip_head > 0u && *--subquery == *--subdb)\<close>: \<open>qi\<close> and \<open>di\<close> are the
  indices of the two pointers in \<open>query\<close> and \<open>db\<close>. The result is the clip that is
  left and \<^verbatim>\<open>match_add\<close>.
\<close>

function contract_head ::
  "char list \<Rightarrow> char list \<Rightarrow> 32 word \<Rightarrow> int \<Rightarrow> int \<Rightarrow> 32 word \<Rightarrow> error + 32 word \<times> 32 word" where
  "contract_head q d clip_head qi di match_add =
     (if \<not> clip_head > 0 then Inr (clip_head, match_add)
      else if \<not> buf_in_bounds q (qi - 1) \<or> \<not> buf_in_bounds d (di - 1) then Inl OutOfBounds
      else if q ! nat (qi - 1) = d ! nat (di - 1)
      then contract_head q d (clip_head - 1) (qi - 1) (di - 1) (match_add + 1)
      else Inr (clip_head, match_add))"
  by pat_completeness auto
termination
  by (relation "measure (\<lambda>(q, d, clip_head, qi, di, match_add). unat clip_head)")
     (auto simp: word_greater_zero_iff unat_minus_one unat_gt_0 intro!: diff_less)

text \<open>\<^verbatim>\<open>while (clip_tail > 0u && *++subquery == *++subdb)\<close>.\<close>

function contract_tail ::
  "char list \<Rightarrow> char list \<Rightarrow> 32 word \<Rightarrow> int \<Rightarrow> int \<Rightarrow> 32 word \<Rightarrow> error + 32 word \<times> 32 word" where
  "contract_tail q d clip_tail qi di match_add =
     (if \<not> clip_tail > 0 then Inr (clip_tail, match_add)
      else if \<not> buf_in_bounds q (qi + 1) \<or> \<not> buf_in_bounds d (di + 1) then Inl OutOfBounds
      else if q ! nat (qi + 1) = d ! nat (di + 1)
      then contract_tail q d (clip_tail - 1) (qi + 1) (di + 1) (match_add + 1)
      else Inr (clip_tail, match_add))"
  by pat_completeness auto
termination
  by (relation "measure (\<lambda>(q, d, clip_tail, qi, di, match_add). unat clip_tail)")
     (auto simp: word_greater_zero_iff unat_minus_one unat_gt_0 intro!: diff_less)

text \<open>The first half of \<^verbatim>\<open>asw_append_softclip\<close>: the clipped beginning.\<close>

definition append_softclip_head :: "Alignment_ASW \<Rightarrow> error + Alignment_ASW" where
  "append_softclip_head al =
     (let clip_head = (word_of_nat (subquery al) :: 32 word)
      in if \<not> clip_head > 0 then Inr al
         else if \<not> buf_in_bounds (rcigar al) (cigar_begin al) then Inl OutOfBounds
         else
           let cigar = rcigar al ! nat (cigar_begin al);
               state = cigar_op cigar;
               z = cigar_len cigar
           in if state = BAM_CSOFT_CLIP then
                Inr (al\<lparr>rcigar := (rcigar al)[nat (cigar_begin al) :=
                                       cigar_pack (clip_head + z) BAM_CSOFT_CLIP]\<rparr>)
              else if state = BAM_CSEQ_MATCH \<or> state = BAM_CMATCH then
                (case contract_head (query al) (db al) clip_head (int (subquery al))
                        (int (subdb al) + uint (offset al)) 0 of
                   Inl e \<Rightarrow> Inl e
                 | Inr (clip_head', match_add) \<Rightarrow>
                     let al1 = (if match_add > 0
                                then al\<lparr>rcigar := (rcigar al)[nat (cigar_begin al) :=
                                                      cigar_pack (z + match_add) state],
                                       offset := offset al - ucast match_add\<rparr>
                                else al)
                     in if clip_head' > 0 then
                          (if \<not> buf_in_bounds (rcigar al1) (cigar_begin al1 - 1)
                           then Inl CigarOverflow
                           else Inr (al1\<lparr>rcigar := (rcigar al1)[nat (cigar_begin al1 - 1) :=
                                                       cigar_pack clip_head' BAM_CSOFT_CLIP],
                                         cigar_begin := cigar_begin al1 - 1\<rparr>))
                        else Inr al1)
              else
                (if \<not> buf_in_bounds (rcigar al) (cigar_begin al - 1) then Inl CigarOverflow
                 else Inr (al\<lparr>rcigar := (rcigar al)[nat (cigar_begin al - 1) :=
                                            cigar_pack clip_head BAM_CSOFT_CLIP],
                              cigar_begin := cigar_begin al - 1\<rparr>)))"

text \<open>
  The second half: the clipped end. \<^verbatim>\<open>clip_tail\<close> is a difference of pointers stored
  into a \<^verbatim>\<open>uint32_t\<close>.
\<close>

definition append_softclip_tail :: "Alignment_ASW \<Rightarrow> error + Alignment_ASW" where
  "append_softclip_tail al =
     (let clip_tail = (word_of_int (uint (query_len al)
                         - (int (subquery al) + uint (subquery_len al))) :: 32 word)
      in if \<not> clip_tail > 0 then Inr al
         else if \<not> buf_in_bounds (rcigar al) (cigar_end al - 1) then Inl OutOfBounds
         else
           let cigar = rcigar al ! nat (cigar_end al - 1);
               state = cigar_op cigar;
               z = cigar_len cigar
           in if state = BAM_CSOFT_CLIP then
                Inr (al\<lparr>rcigar := (rcigar al)[nat (cigar_end al - 1) :=
                                       cigar_pack (clip_tail + z) BAM_CSOFT_CLIP]\<rparr>)
              else if state = BAM_CSEQ_MATCH \<or> state = BAM_CMATCH then
                (case contract_tail (query al) (db al) clip_tail
                        (int (subquery al) + uint (subquery_len al) - 1)
                        (int (subdb al) + uint (offset al) + uint (subdb_len al) - 1) 0 of
                   Inl e \<Rightarrow> Inl e
                 | Inr (clip_tail', match_add) \<Rightarrow>
                     let al1 = (if match_add > 0
                                then al\<lparr>rcigar := (rcigar al)[nat (cigar_end al - 1) :=
                                                      cigar_pack (z + match_add) state]\<rparr>
                                else al)
                     in if clip_tail' > 0 then
                          (if \<not> buf_in_bounds (rcigar al1) (cigar_end al1)
                           then Inl CigarOverflow
                           else Inr (al1\<lparr>rcigar := (rcigar al1)[nat (cigar_end al1) :=
                                                       cigar_pack clip_tail' BAM_CSOFT_CLIP],
                                         cigar_end := cigar_end al1 + 1\<rparr>))
                        else Inr al1)
              else
                (if \<not> buf_in_bounds (rcigar al) (cigar_end al) then Inl CigarOverflow
                 else Inr (al\<lparr>rcigar := (rcigar al)[nat (cigar_end al) :=
                                            cigar_pack clip_tail BAM_CSOFT_CLIP],
                              cigar_end := cigar_end al + 1\<rparr>)))"

definition asw_append_softclip :: "Alignment_ASW \<Rightarrow> error + Alignment_ASW" where
  "asw_append_softclip al =
     (case append_softclip_head al of Inl e \<Rightarrow> Inl e | Inr al1 \<Rightarrow> append_softclip_tail al1)"

subsection \<open>asw\_append\_hardclip\<close>

definition append_hardclip_head :: "32 word \<Rightarrow> Alignment_ASW \<Rightarrow> error + Alignment_ASW" where
  "append_hardclip_head clip_head al =
     (if \<not> clip_head > 0 then Inr al
      else if \<not> buf_in_bounds (rcigar al) (cigar_begin al) then Inl OutOfBounds
      else
        let cigar = rcigar al ! nat (cigar_begin al);
            state = cigar_op cigar;
            z = cigar_len cigar
        in if state = BAM_CHARD_CLIP then
             Inr (al\<lparr>rcigar := (rcigar al)[nat (cigar_begin al) :=
                                    cigar_pack (clip_head + z) BAM_CHARD_CLIP]\<rparr>)
           else if \<not> buf_in_bounds (rcigar al) (cigar_begin al - 1) then Inl CigarOverflow
           else Inr (al\<lparr>rcigar := (rcigar al)[nat (cigar_begin al - 1) :=
                                      cigar_pack clip_head BAM_CHARD_CLIP],
                        cigar_begin := cigar_begin al - 1\<rparr>))"

definition append_hardclip_tail :: "32 word \<Rightarrow> Alignment_ASW \<Rightarrow> error + Alignment_ASW" where
  "append_hardclip_tail clip_tail al =
     (if \<not> clip_tail > 0 then Inr al
      else if \<not> buf_in_bounds (rcigar al) (cigar_end al - 1) then Inl OutOfBounds
      else
        let cigar = rcigar al ! nat (cigar_end al - 1);
            state = cigar_op cigar;
            z = cigar_len cigar
        in if state = BAM_CHARD_CLIP then
             Inr (al\<lparr>rcigar := (rcigar al)[nat (cigar_end al - 1) :=
                                    cigar_pack (clip_tail + z) BAM_CHARD_CLIP]\<rparr>)
           else if \<not> buf_in_bounds (rcigar al) (cigar_end al) then Inl CigarOverflow
           else Inr (al\<lparr>rcigar := (rcigar al)[nat (cigar_end al) :=
                                      cigar_pack clip_tail BAM_CHARD_CLIP],
                        cigar_end := cigar_end al + 1\<rparr>))"

definition asw_append_hardclip :: "Alignment_ASW \<Rightarrow> 32 word \<Rightarrow> 32 word \<Rightarrow> error + Alignment_ASW" where
  "asw_append_hardclip al clip_head clip_tail =
     (case append_hardclip_head clip_head al of
        Inl e \<Rightarrow> Inl e
      | Inr al1 \<Rightarrow> append_hardclip_tail clip_tail al1)"

subsection \<open>asw\_softclip\_trace\<close>

text \<open>
  The scan from the tail, \<^verbatim>\<open>for (; rc3p != rc; --rc3p)\<close>, on \<^verbatim>\<open>rc3p\<close> and
  \<^verbatim>\<open>soft_clip_3p\<close>. It stops at \<^verbatim>\<open>rc\<close> or at the first \<^verbatim>\<open>=\<close>.
\<close>

function scan_3p :: "cigar_t list \<Rightarrow> int \<Rightarrow> int \<Rightarrow> 32 word \<Rightarrow> error + int \<times> 32 word" where
  "scan_3p buf rc rc3p soft_clip_3p =
     (if rc3p = rc then Inr (rc3p, soft_clip_3p)
      else if \<not> buf_in_bounds buf rc3p then Inl OutOfBounds
      else
        let cigar = buf ! nat rc3p; state = cigar_op cigar
        in if state = BAM_CSEQ_MATCH then Inr (rc3p, soft_clip_3p)
           else if state \<noteq> BAM_CDEL \<and> state \<noteq> BAM_CHARD_CLIP
           then scan_3p buf rc (rc3p - 1) (soft_clip_3p + cigar_len cigar)
           else scan_3p buf rc (rc3p - 1) soft_clip_3p)"
  by pat_completeness auto
termination
  by (relation "measure (\<lambda>(buf, rc, rc3p, soft_clip_3p). nat (rc3p + 1))")
     (auto simp: buf_in_bounds_def)

text \<open>
  The scan from the head, \<^verbatim>\<open>for (; fc5p != fc3p; ++fc5p)\<close>, on \<^verbatim>\<open>fc5p\<close>,
  \<^verbatim>\<open>soft_clip_5p\<close> and \<^verbatim>\<open>offset\<close>. \<^verbatim>\<open>op_len\<close> is an \<^verbatim>\<open>int\<close> below \<open>2 ^ 28\<close>.
\<close>

function scan_5p ::
  "cigar_t list \<Rightarrow> int \<Rightarrow> int \<Rightarrow> 32 word \<Rightarrow> size_t \<Rightarrow> error + int \<times> 32 word \<times> size_t" where
  "scan_5p buf fc3p fc5p soft_clip_5p off =
     (if fc5p = fc3p then Inr (fc5p, soft_clip_5p, off)
      else if \<not> buf_in_bounds buf fc5p then Inl OutOfBounds
      else
        let cigar = buf ! nat fc5p; state = cigar_op cigar
        in if state = BAM_CSEQ_MATCH then Inr (fc5p, soft_clip_5p, off)
           else if state \<noteq> BAM_CHARD_CLIP then
             let op_len = cigar_len cigar
             in scan_5p buf fc3p (fc5p + 1)
                  (if state \<noteq> BAM_CDEL then soft_clip_5p + op_len else soft_clip_5p)
                  (if state \<noteq> BAM_CINS then off + ucast op_len else off)
           else scan_5p buf fc3p (fc5p + 1) soft_clip_5p off)"
  by pat_completeness auto
termination
  by (relation "measure (\<lambda>(buf, fc3p, fc5p, soft_clip_5p, off). length buf - nat fc5p)")
     (auto simp: buf_in_bounds_def)

definition asw_softclip_trace :: "Alignment_ASW \<Rightarrow> error + Alignment_ASW" where
  "asw_softclip_trace al =
     (case scan_3p (rcigar al) (cigar_begin al - 1) (cigar_end al - 1) 0 of
        Inl e \<Rightarrow> Inl e
      | Inr (rc3p, soft_clip_3p) \<Rightarrow>
          if soft_clip_3p > 0 \<and> \<not> buf_in_bounds (rcigar al) (rc3p + 1) then Inl OutOfBounds
          else
            let rc3p' = (if soft_clip_3p > 0 then rc3p + 1 else rc3p);
                buf1 = (if soft_clip_3p > 0
                        then (rcigar al)[nat (rc3p + 1) := cigar_pack soft_clip_3p BAM_CSOFT_CLIP]
                        else rcigar al);
                fc3p = rc3p' + 1
            in case scan_5p buf1 fc3p (cigar_begin al) 0 (offset al) of
                 Inl e \<Rightarrow> Inl e
               | Inr (fc5p, soft_clip_5p, off) \<Rightarrow>
                   if soft_clip_5p > 0 \<and> \<not> buf_in_bounds buf1 (fc5p - 1) then Inl OutOfBounds
                   else
                     let fc5p' = (if soft_clip_5p > 0 then fc5p - 1 else fc5p);
                         buf2 = (if soft_clip_5p > 0
                                 then buf1[nat (fc5p - 1) := cigar_pack soft_clip_5p BAM_CSOFT_CLIP]
                                 else buf1)
                     in Inr (al\<lparr>rcigar := buf2, offset := off,
                                 cigar_begin := fc5p', cigar_end := fc3p\<rparr>))"

subsection \<open>asw\_compact\_trace\<close>

text \<open>
  The inner \<^verbatim>\<open>while (1)\<close> loop on \<^verbatim>\<open>rbucket\<close>, \<^verbatim>\<open>start_riter\<close>, \<^verbatim>\<open>num_matches\<close>
  and the buffer. The result carries the value of \<^verbatim>\<open>cigar\<close> at the \<^verbatim>\<open>break\<close>.
\<close>

function compact_inner ::
  "cigar_t list \<Rightarrow> int \<Rightarrow> int \<Rightarrow> int \<Rightarrow> 32 word
     \<Rightarrow> error + cigar_t \<times> int \<times> int \<times> cigar_t list" where
  "compact_inner buf rc rbucket start_riter num_matches =
     (if \<not> buf_in_bounds buf rbucket then Inl OutOfBounds
      else
        let cigar = buf ! nat rbucket; state = cigar_op cigar
        in if state = BAM_CSEQ_MATCH \<or> state = BAM_CSEQ_MISMATCH then
             (if rbucket - 1 = rc
              then Inr (cigar_pack (num_matches + cigar_len cigar) BAM_CMATCH,
                        rbucket - 1, start_riter, buf)
              else compact_inner buf rc (rbucket - 1) start_riter
                     (num_matches + cigar_len cigar))
           else if num_matches > 0 then
             (if \<not> buf_in_bounds buf start_riter then Inl OutOfBounds
              else Inr (cigar, rbucket - 1, start_riter - 1,
                        buf[nat start_riter := cigar_pack num_matches BAM_CMATCH]))
           else Inr (cigar, rbucket - 1, start_riter, buf))"
  by pat_completeness auto
termination
  by (relation "measure (\<lambda>(buf, rc, rbucket, start_riter, num_matches). nat (rbucket + 1))")
     (auto simp: buf_in_bounds_def)

text \<open>The outer loop, \<^verbatim>\<open>while (rbucket != rc)\<close>.\<close>

function compact_outer :: "cigar_t list \<Rightarrow> int \<Rightarrow> int \<Rightarrow> int \<Rightarrow> error + cigar_t list \<times> int" where
  "compact_outer buf rc rbucket start_riter =
     (if rbucket = rc then Inr (buf, start_riter)
      else
        case compact_inner buf rc rbucket start_riter 0 of
          Inl e \<Rightarrow> Inl e
        | Inr (cigar, rbucket', start_riter', buf') \<Rightarrow>
            if \<not> buf_in_bounds buf' start_riter' then Inl OutOfBounds
            else compact_outer (buf'[nat start_riter' := cigar]) rc rbucket' (start_riter' - 1))"
  by pat_completeness auto
termination
proof (relation "measure (\<lambda>(buf, rc, rbucket, start_riter). nat (rbucket + 1))", goal_cases)
  case 1
  show ?case by simp
next
  case (2 buf rc rbucket start_riter x2 x y xa ya xb yb)
  have inner: "compact_inner b r rb sr num = Inr (c, rb', sr', b') \<Longrightarrow> - 1 \<le> rb' \<and> rb' < rb"
    for b r rb sr num c rb' sr' b'
  proof (induction b r rb sr num rule: compact_inner.induct)
    case (1 buf rc rbucket start_riter num_matches)
    show ?case
    proof (cases "buf_in_bounds buf rbucket")
      case False
      with "1.prems" show ?thesis by simp
    next
      case inb: True
      then have nonneg: "0 \<le> rbucket" by (simp add: buf_in_bounds_def)
      show ?thesis
      proof (cases "(cigar_op (buf ! nat rbucket) = BAM_CSEQ_MATCH
                     \<or> cigar_op (buf ! nat rbucket) = BAM_CSEQ_MISMATCH) \<and> rbucket - 1 \<noteq> rc")
        case True
        with inb "1.prems" have rec:
          "compact_inner buf rc (rbucket - 1) start_riter
             (num_matches + cigar_len (buf ! nat rbucket)) = Inr (c, rb', sr', b')"
          by (simp add: Let_def)
        have "- 1 \<le> rb' \<and> rb' < rbucket - 1"
          by (rule "1.IH" [OF _ refl refl]) (use inb True rec in auto)
        then show ?thesis by simp
      next
        case False
        with inb "1.prems" have "rb' = rbucket - 1"
          by (auto simp: Let_def split: if_splits)
        with nonneg show ?thesis by simp
      qed
    qed
  qed
  from 2 have "compact_inner buf rc rbucket start_riter 0 = Inr (x, xa, xb, yb)"
    by simp
  from inner [OF this] show ?case by simp
qed


section \<open>Allocation and the prepare functions\<close>

text \<open>
  The engine after \<^verbatim>\<open>asw_alloc\<close>: the four tables are allocated and not yet filled, the
  trace matrix has one row pointer, which is \<^verbatim>\<open>NULL\<close> (a row of no cell), every other
  buffer is \<^verbatim>\<open>NULL\<close> and every length is 0. Fields that \<^verbatim>\<open>asw_alloc\<close> leaves
  unset are given a fixed value.
\<close>

definition asw_alloc :: Alignment_ASW where
  "asw_alloc =
     \<lparr>phred_offset = 0,
      match_penalty = replicate PHRED_RANGE 0, mismatch_penalty = replicate PHRED_RANGE 0,
      gopen_penalty = replicate PHRED_RANGE 0, gext_penalty = replicate PHRED_RANGE 0,
      GAP_OPEN_EXTEND = 0, GAP_EXTEND = 0,
      db = [], subdb = 0, query = [], subquery = 0, qual = [], subqual = 0,
      db_len = 0, subdb_len = 0, query_len = 0, subquery_len = 0,
      vecPen_m_act = [], vecPen_m1_act = [], vecIns_m_act = [], vecIns_m1_act = [],
      I_ext_m_act = [], I_ext_m1_act = [], vecPen_lastRow = Row_m,
      matTra = [[]], opt_score = 0, opt_score_col = 0,
      rcigar = [], cigar_begin = 0, cigar_end = 0, offset = 0\<rparr>"

definition asw_set_phoffset :: "Alignment_ASW \<Rightarrow> int \<Rightarrow> Alignment_ASW" where
  "asw_set_phoffset al off = al\<lparr>phred_offset := off\<rparr>"

text \<open>
  \<^verbatim>\<open>resize_matrix1\<close>, on the matrix as a list of rows. The sizes are computed on
  \<^verbatim>\<open>size_t\<close>; \<open>alloc_ok\<close> says which requests, in bytes, the allocator grants
  (\<^verbatim>\<open>p_malloc\<close> and \<^verbatim>\<open>p_realloc\<close> are supplied by the caller). \<open>None\<close> is the
  \<^verbatim>\<open>NULL\<close> result.
\<close>

definition resize_matrix1 ::
  "(size_t \<Rightarrow> bool) \<Rightarrow> Alignment_ASW \<Rightarrow> cigar_t list list \<Rightarrow> size_t \<Rightarrow> size_t
     \<Rightarrow> cigar_t list list option" where
  "resize_matrix1 alloc_ok al mat new_x_len new_y_len =
     (let old_x_len = subdb_len al;
          old_y_len = subquery_len al;
          cigar_hor = 4 * (new_x_len + 1);
          cells = unat cigar_hor div 4;
          n_new = unat (new_y_len + 1) - unat (old_y_len + 1);
          n_top = unat (min old_y_len new_y_len + 1)
      in if old_y_len \<noteq> new_y_len \<and> \<not> alloc_ok (8 * (new_y_len + 1)) then None
         else if old_y_len \<noteq> new_y_len \<and> 0 < n_new \<and> \<not> alloc_ok cigar_hor then None
         else
           let mat1 = (if old_y_len \<noteq> new_y_len
                       then take (unat (new_y_len + 1)) mat @ replicate n_new (replicate cells 0)
                       else mat)
           in if old_x_len \<noteq> new_x_len \<and> 0 < n_top \<and> \<not> alloc_ok cigar_hor then None
              else Some (if old_x_len \<noteq> new_x_len
                         then map (\<lambda>r. realloc_cells r cells) (take n_top mat1) @ drop n_top mat1
                         else mat1))"

text \<open>
  The six \<^verbatim>\<open>p_realloc\<close> calls on the rolling rows, each of \<open>m_subdb_len + 1\<close> cells of
  4 bytes.
\<close>

definition resize_rows :: "(size_t \<Rightarrow> bool) \<Rightarrow> Alignment_ASW \<Rightarrow> size_t \<Rightarrow> Alignment_ASW option" where
  "resize_rows alloc_ok al m_subdb_len =
     (if subdb_len al \<noteq> m_subdb_len then
        (if \<not> alloc_ok (4 * (m_subdb_len + 1)) then None
         else
           let k = unat (4 * (m_subdb_len + 1)) div 4
           in Some (al\<lparr>vecPen_m1_act := realloc_cells (vecPen_m1_act al) k,
                       vecPen_m_act := realloc_cells (vecPen_m_act al) k,
                       vecIns_m1_act := realloc_cells (vecIns_m1_act al) k,
                       vecIns_m_act := realloc_cells (vecIns_m_act al) k,
                       I_ext_m_act := realloc_cells (I_ext_m_act al) k,
                       I_ext_m1_act := realloc_cells (I_ext_m1_act al) k,
                       subdb_len := m_subdb_len\<rparr>))
      else Some al)"

text \<open>
  The three prepare functions return 0 or -1 (here \<open>Inr ()\<close> or \<open>Inl AllocError\<close>) and
  leave the engine as the assignments made before the failing allocation left it. The
  clips are \<^verbatim>\<open>uint32_t\<close>, the lengths \<^verbatim>\<open>size_t\<close>.
\<close>

definition asw_prepare_query ::
  "(size_t \<Rightarrow> bool) \<Rightarrow> Alignment_ASW \<Rightarrow> char list \<Rightarrow> 8 word list \<Rightarrow> size_t \<Rightarrow> 32 word \<Rightarrow> 32 word
     \<Rightarrow> (error + unit) \<times> Alignment_ASW" where
  "asw_prepare_query alloc_ok al m_query m_qual m_query_len clip_head clip_tail =
     (let m_subquery_len = m_query_len - ucast clip_head - ucast clip_tail;
          al1 = al\<lparr>query_len := m_query_len, query := m_query, subquery := unat clip_head,
                   qual := m_qual, subqual := unat clip_head\<rparr>
      in case resize_matrix1 alloc_ok al1 (matTra al1) (subdb_len al1) m_subquery_len of
           None \<Rightarrow> (Inl AllocError, al1)
         | Some tmp1 \<Rightarrow> (Inr (), al1\<lparr>matTra := tmp1, subquery_len := m_subquery_len\<rparr>))"

definition asw_prepare_db ::
  "(size_t \<Rightarrow> bool) \<Rightarrow> Alignment_ASW \<Rightarrow> char list \<Rightarrow> size_t \<Rightarrow> 32 word \<Rightarrow> 32 word
     \<Rightarrow> (error + unit) \<times> Alignment_ASW" where
  "asw_prepare_db alloc_ok al m_db m_db_len clip_head clip_tail =
     (let m_subdb_len = m_db_len - ucast clip_head - ucast clip_tail;
          al1 = al\<lparr>db := m_db, db_len := m_db_len, subdb := unat clip_head\<rparr>
      in case resize_matrix1 alloc_ok al1 (matTra al1) m_subdb_len (subquery_len al1) of
           None \<Rightarrow> (Inl AllocError, al1)
         | Some tmp1 \<Rightarrow>
             (case resize_rows alloc_ok (al1\<lparr>matTra := tmp1\<rparr>) m_subdb_len of
                None \<Rightarrow> (Inl AllocError, al1\<lparr>matTra := tmp1\<rparr>)
              | Some al2 \<Rightarrow> (Inr (), al2)))"

definition asw_prepare ::
  "(size_t \<Rightarrow> bool) \<Rightarrow> Alignment_ASW \<Rightarrow> char list \<Rightarrow> size_t \<Rightarrow> char list \<Rightarrow> 8 word list \<Rightarrow> size_t
     \<Rightarrow> 32 word \<Rightarrow> 32 word \<Rightarrow> (error + unit) \<times> Alignment_ASW" where
  "asw_prepare alloc_ok al m_db m_db_len m_query m_qual m_query_len clip_head clip_tail =
     (let m_subdb_len = m_db_len - ucast clip_head - ucast clip_tail;
          m_subquery_len = m_query_len - ucast clip_head - ucast clip_tail;
          al1 = al\<lparr>db := m_db, db_len := m_db_len, query_len := m_query_len,
                   subdb := unat clip_head, query := m_query, subquery := unat clip_head,
                   qual := m_qual, subqual := unat clip_head\<rparr>
      in case resize_matrix1 alloc_ok al1 (matTra al1) m_subdb_len m_subquery_len of
           None \<Rightarrow> (Inl AllocError, al1)
         | Some tmp1 \<Rightarrow>
             let al2 = al1\<lparr>matTra := tmp1, subquery_len := m_subquery_len\<rparr>
             in case resize_rows alloc_ok al2 m_subdb_len of
                  None \<Rightarrow> (Inl AllocError, al2)
                | Some al3 \<Rightarrow> (Inr (), al3))"

section \<open>Example engines\<close>

text \<open>
  The four tables for the default penalties of the binding (match -10, mismatch 30,
  gap open and extend 50, gap extend 20), as the formula of \<^verbatim>\<open>asw_init\<close> gives them.
  They serve the examples only; every theorem below holds for any tables.
\<close>

definition ex_tables :: "Alignment_ASW \<Rightarrow> Alignment_ASW" where
  "ex_tables al =
     al\<lparr>match_penalty := [7, 6, 5, 4, 3, 2, 2, 1, 1, 1, 1, 1] @ replicate 82 0,
        mismatch_penalty :=
          [18, 22, 26, 29, 31, 33, 34, 36, 36, 37, 38, 38, 39, 39, 39, 39, 39] @ replicate 77 40,
        gopen_penalty :=
          [23, 30, 36, 41, 45, 48, 51, 53, 54, 55, 56, 57, 58, 58, 59, 59, 59, 59, 59]
          @ replicate 75 60,
        gext_penalty :=
          [15, 18, 21, 22, 24, 25, 26, 27, 28, 28, 29, 29, 29, 29, 29] @ replicate 79 30,
        GAP_OPEN_EXTEND := 50, GAP_EXTEND := 20\<rparr>"

text \<open>An allocator that grants every request of at most \<open>2 ^ 32\<close> bytes.\<close>

definition ex_alloc :: "size_t \<Rightarrow> bool" where
  "ex_alloc bytes = (bytes \<le> 4294967296)"

text \<open>
  A fresh engine prepared as the binding does it: no clip, quality \<^verbatim>\<open>I\<close> (PHRED 40
  at offset 33) at every base.
\<close>

definition ex_engine :: "char list \<Rightarrow> char list \<Rightarrow> Alignment_ASW" where
  "ex_engine d q =
     asw_set_phoffset
       (snd (asw_prepare ex_alloc (ex_tables asw_alloc) d (word_of_nat (length d))
               q (replicate (length q) 73) (word_of_nat (length q)) 0 0)) 33"

text \<open>The engine after the global and after the semi-global initialiser.\<close>

definition ex_init :: "char list \<Rightarrow> char list \<Rightarrow> Alignment_ASW" where
  "ex_init d q = projr (asw_align_init (ex_engine d q))"

definition ex_init_semi :: "char list \<Rightarrow> char list \<Rightarrow> Alignment_ASW" where
  "ex_init_semi d q = projr (asw_align_init_semi (ex_engine d q))"

text \<open>
  The inner loop of \<^verbatim>\<open>asw_align\<close> on reference \<^verbatim>\<open>AC\<close> and query \<^verbatim>\<open>AC\<close>, before the cell
  of row 2 and column 2: the locals after one row, the values fixed for row 2, the loop
  state after column 1.
\<close>

definition ex_l :: align_locals where
  "ex_l = fold (align_row (ex_init ''AC'' ''AC'')) [0..<1] (align_locals_of (ex_init ''AC'' ''AC''))"

definition ex_e :: row_env where
  "ex_e = row_env_of (ex_init ''AC'' ''AC'') ex_l 1"

definition ex_s :: row_state where
  "ex_s = fold (align_cell ex_e) [0..<1] (row_start ex_e ex_l (1 + 1))"

text \<open>The engine after \<^verbatim>\<open>asw_align\<close>.\<close>

definition ex_aligned :: "char list \<Rightarrow> char list \<Rightarrow> Alignment_ASW" where
  "ex_aligned d q = projr (asw_align (ex_init d q))"

text \<open>
  An engine with cheap deletions, as \<^verbatim>\<open>asw_init(al, -10, 30, 1, 1)\<close> fills it: the two
  gap constants are 1 and both gap tables hold 10 at the qualities 0 and 1 and 11 above.
  Reference \<^verbatim>\<open>ACACACA\<close> against query \<^verbatim>\<open>AAAA\<close> then aligns as
  \<^verbatim>\<open>1= 1D 1= 1D 1= 1D 1=\<close>: seven operations, where the buffer of \<^verbatim>\<open>asw_trace\<close> has
  room for six.
\<close>

definition ex_del_engine :: Alignment_ASW where
  "ex_del_engine =
     (ex_engine ''ACACACA'' ''AAAA'')
       \<lparr>gopen_penalty := [10, 10] @ replicate 92 11,
        gext_penalty := [10, 10] @ replicate 92 11,
        GAP_OPEN_EXTEND := 1, GAP_EXTEND := 1\<rparr>"

definition ex_del_init :: Alignment_ASW where
  "ex_del_init = projr (asw_align_init ex_del_engine)"

definition ex_del_aligned :: Alignment_ASW where
  "ex_del_aligned = projr (asw_align ex_del_init)"

text \<open>The state in which \<^verbatim>\<open>asw_trace\<close> starts its loop on this engine, from column 7.\<close>

definition ex_del_start :: trace_state where
  "ex_del_start =
     \<lparr>t_m1 = 4, t_n1 = 7, t_cigar = tra_at (matTra ex_del_aligned) 4 7,
      t_rc = 5, t_rcigar = replicate 8 0, t_over = False\<rparr>"

text \<open>
  An engine with the same tables and gap constants, \<^verbatim>\<open>asw_init(al, -10, 30, 1, 1)\<close>, and
  buffers of the sizes that \<^verbatim>\<open>asw_prepare\<close> allocates, for a reference of \<open>2 ^ 28 + 1\<close>
  characters, \<^verbatim>\<open>A\<close> followed by \<open>2 ^ 28\<close> times \<^verbatim>\<open>C\<close>, and the query \<^verbatim>\<open>A\<close> at quality
  \<^verbatim>\<open>I\<close>. No score that the code computes on it exceeds \<open>2 ^ 28 + 40\<close>, so none
  overflows an \<^verbatim>\<open>int\<close>.
\<close>

definition ex_long_engine :: Alignment_ASW where
  "ex_long_engine =
     (ex_tables asw_alloc)
       \<lparr>phred_offset := 33,
        gopen_penalty := [10, 10] @ replicate 92 11,
        gext_penalty := [10, 10] @ replicate 92 11,
        GAP_OPEN_EXTEND := 1, GAP_EXTEND := 1,
        db := CHR ''A'' # replicate 268435456 CHR ''C'', query := ''A'', qual := [73],
        db_len := 268435457, subdb_len := 268435457, query_len := 1, subquery_len := 1,
        vecPen_m_act := replicate 268435458 0, vecPen_m1_act := replicate 268435458 0,
        vecIns_m_act := replicate 268435458 0, vecIns_m1_act := replicate 268435458 0,
        I_ext_m_act := replicate 268435458 0, I_ext_m1_act := replicate 268435458 0,
        matTra := [replicate 268435458 0, replicate 268435458 0]\<rparr>"

definition ex_long_init :: Alignment_ASW where
  "ex_long_init = projr (asw_align_init ex_long_engine)"

definition ex_long_aligned :: Alignment_ASW where
  "ex_long_aligned = projr (asw_align ex_long_init)"

text \<open>
  The engine after the global pipeline of the binding and \<^verbatim>\<open>asw_trace\<close>, and after one
  more call of \<^verbatim>\<open>asw_softclip_trace\<close>.
\<close>

definition ex_traced :: "char list \<Rightarrow> char list \<Rightarrow> Alignment_ASW" where
  "ex_traced d q =
     (let al = snd (Qxalign_align False (ex_engine d q))
      in case asw_trace ex_alloc al of Some (Inr al') \<Rightarrow> al' | _ \<Rightarrow> al)"

definition ex_clipped :: "char list \<Rightarrow> char list \<Rightarrow> Alignment_ASW" where
  "ex_clipped d q = projr (asw_softclip_trace (ex_traced d q))"


section \<open>Properties of scores, trace cells and CIGARs\<close>

text \<open>
  The scores of row 0 in global mode fit a C \<^verbatim>\<open>int\<close>: for every column \<open>k\<close> from 0 to
  \<open>subdb_len\<close> the sum \<open>GAP_OPEN_EXTEND + (k - 1) * GAP_EXTEND\<close>, which at \<open>k = 0\<close> is
  the starting value of \<^verbatim>\<open>storedDel_score\<close>, lies in \<open>[- 2 ^ 31, 2 ^ 31)\<close>.
\<close>

definition int_fits :: "int \<Rightarrow> bool" where
  "int_fits x = (- 2147483648 \<le> x \<and> x < 2147483648)"

definition row0_fits :: "Alignment_ASW \<Rightarrow> bool" where
  "row0_fits al =
     list_all (\<lambda>k. int_fits (GAP_OPEN_EXTEND al + (int k - 1) * GAP_EXTEND al))
       [0..<unat (subdb_len al) + 1]"


text \<open>
  A trace cell at row \<open>i\<close> and column \<open>j\<close> that moves the traceback by at least one cell
  and keeps it inside the matrix: its run length is at least 1; an insertion moves up by
  at most \<open>i\<close> rows, a deletion moves left by at most \<open>j\<close> columns, a match or mismatch
  moves diagonally by at most \<open>i\<close> rows and \<open>j\<close> columns; no other operation occurs.
\<close>

definition trace_cell_ok :: "nat \<Rightarrow> nat \<Rightarrow> cigar_t \<Rightarrow> bool" where
  "trace_cell_ok i j c =
     (1 \<le> unat (cigar_len c)
      \<and> (cigar_op c = BAM_CINS \<and> unat (cigar_len c) \<le> i
         \<or> cigar_op c = BAM_CDEL \<and> unat (cigar_len c) \<le> j
         \<or> (cigar_op c = BAM_CSEQ_MATCH \<or> cigar_op c = BAM_CSEQ_MISMATCH)
            \<and> unat (cigar_len c) \<le> i \<and> unat (cigar_len c) \<le> j))"

text \<open>
  A trace matrix of \<open>Q + 1\<close> rows and \<open>N + 1\<close> columns every cell of which, below row 0,
  is such a cell.
\<close>

definition trace_matrix_ok :: "cigar_t list list \<Rightarrow> nat \<Rightarrow> nat \<Rightarrow> bool" where
  "trace_matrix_ok mat Q N =
     (Q < length mat
      \<and> (\<forall>i \<le> Q. N < length (mat ! i))
      \<and> (\<forall>i j. 1 \<le> i \<and> i \<le> Q \<and> j \<le> N \<longrightarrow> trace_cell_ok i j (mat ! i ! j)))"

text \<open>The cells of a buffer at the indices above \<open>lo\<close> up to \<open>hi\<close>.\<close>

definition cells :: "cigar_t list \<Rightarrow> int \<Rightarrow> int \<Rightarrow> cigar_t list" where
  "cells buf lo hi = map (nth buf) [nat (lo + 1)..<nat (hi + 1)]"

text \<open>
  The operations that consume query characters (\<^verbatim>\<open>M\<close>, \<^verbatim>\<open>I\<close>, \<^verbatim>\<open>S\<close>, \<^verbatim>\<open>=\<close>, \<^verbatim>\<open>X\<close>) and
  the number of query characters that a CIGAR consumes.
\<close>

definition consumes_query :: "32 word \<Rightarrow> bool" where
  "consumes_query op =
     (op = BAM_CMATCH \<or> op = BAM_CINS \<or> op = BAM_CSOFT_CLIP
      \<or> op = BAM_CSEQ_MATCH \<or> op = BAM_CSEQ_MISMATCH)"

definition query_consumed :: "cigar_t list \<Rightarrow> nat" where
  "query_consumed cs =
     sum_list (map (\<lambda>c. if consumes_query (cigar_op c) then unat (cigar_len c) else 0) cs)"

text \<open>
  What the traceback loop, started in \<open>s\<close>, has done when it stops in \<open>s'\<close>: it is in
  row 0 at a column between 0 and the starting column; it has written the cells above
  \<open>t_rc s'\<close> up to \<open>t_rc s\<close> and no other; what it wrote consumes as many query
  characters as the rows it came down.
\<close>

definition trace_post :: "trace_state \<Rightarrow> trace_state \<Rightarrow> bool" where
  "trace_post s s' =
     (t_m1 s' = 0 \<and> 0 \<le> t_n1 s' \<and> t_n1 s' \<le> t_n1 s
      \<and> length (t_rcigar s') = length (t_rcigar s)
      \<and> - 1 \<le> t_rc s' \<and> t_rc s' \<le> t_rc s
      \<and> (\<forall>k. t_rc s < int k \<longrightarrow> t_rcigar s' ! k = t_rcigar s ! k)
      \<and> query_consumed (cells (t_rcigar s') (t_rc s') (t_rc s)) = nat (t_m1 s))"





text \<open>
  A valid CIGAR: every run has a length of at least 1, and the run lengths together stay
  below \<open>2 ^ 28\<close>, so that a fused run fits the 28 bits of a run length.
\<close>

definition run_lengths :: "cigar_t list \<Rightarrow> nat" where
  "run_lengths cs = sum_list (map (\<lambda>c. unat (cigar_len c)) cs)"



section \<open>Packed cells\<close>

lemma word_bits_below: "(x :: 'a::len word) < 2 ^ k \<Longrightarrow> bit x n \<Longrightarrow> n < k"
proof -
  assume a: "x < 2 ^ k" and b: "bit x n"
  from a have "x AND mask k = x" by (rule less_mask_eq)
  then have "bit (x AND mask k) n" using b by simp
  then show "n < k" by (simp add: bit_simps)
qed

lemma op_bits: "(op :: 32 word) \<le> 15 \<Longrightarrow> bit op n \<Longrightarrow> n < 4"
  by (rule word_bits_below [of op 4]) (simp_all add: word_le_nat_alt word_less_nat_alt)

lemma len_bits: "(z :: 32 word) < 268435456 \<Longrightarrow> bit z n \<Longrightarrow> n < 28"
  using word_bits_below [of z 28 n] by simp

lemma BAM_CIGAR_MASK_mask: "BAM_CIGAR_MASK = mask 4"
  by (simp add: BAM_CIGAR_MASK_def BAM_CIGAR_SHIFT_def mask_eq_decr_exp)

lemma cigar_op_pack: "op \<le> 15 \<Longrightarrow> cigar_op (cigar_pack z op) = op"
proof -
  assume "op \<le> 15"
  then have "op < 2 ^ 4" by (simp add: word_le_nat_alt word_less_nat_alt)
  then have a: "op AND mask 4 = op" by (rule less_mask_eq)
  have b: "push_bit 4 z AND mask 4 = (0 :: 32 word)"
    by (rule bit_word_eqI) (simp add: bit_simps)
  show ?thesis
    unfolding cigar_op_def cigar_pack_def BAM_CIGAR_MASK_mask BAM_CIGAR_SHIFT_def
    by (simp only: word_ao_dist a b) simp
qed

lemma cigar_len_pack: "z < 2 ^ 28 \<Longrightarrow> op \<le> 15 \<Longrightarrow> cigar_len (cigar_pack z op) = z"
  unfolding cigar_len_def cigar_pack_def BAM_CIGAR_SHIFT_def
  by (rule bit_word_eqI) (auto simp: bit_simps dest: op_bits len_bits)

lemma cigar_len_lt: "cigar_len c < 2 ^ 28"
proof -
  have "unat (cigar_len c) = unat c div 2 ^ 4"
    by (simp add: cigar_len_def BAM_CIGAR_SHIFT_def unat_drop_bit_eq drop_bit_eq_div unat_div)
  moreover have "unat c < 2 ^ 32" using unsigned_less [of c] by simp
  ultimately have "unat (cigar_len c) < 2 ^ 28" by simp
  then show ?thesis by (simp add: word_less_nat_alt)
qed

lemma init_cell:
  "(ucast (push_bit BAM_CIGAR_SHIFT (word_of_nat n :: size_t) OR ucast BAM_CDEL) :: cigar_t)
     = cigar_pack (word_of_nat n) BAM_CDEL"
  unfolding cigar_pack_def BAM_CIGAR_SHIFT_def BAM_CDEL_def
  by (rule bit_word_eqI) (auto simp: bit_simps)

lemma unat_cigar_len_pack_nat:
  "n < 2 ^ 28 \<Longrightarrow> op \<le> 15 \<Longrightarrow> unat (cigar_len (cigar_pack (word_of_nat n) op)) = n"
  by (subst cigar_len_pack) (simp_all add: word_less_nat_alt unat_of_nat)

section \<open>Row 0 after asw\_align\_init\<close>

lemma int32_int32_add: "int32 (int32 a + b) = int32 (a + b)"
  by (simp add: int32_def)

lemma int32_fits: "int_fits x \<Longrightarrow> int32 x = x"
  by (simp add: int32_def int_fits_def sint_sbintrunc' signed_take_bit_int_eq_self)

lemma int32_step:
  "int32 ((if N = 0 then x else int32 (x + int N * GE)) + GE) = int32 (x + int (Suc N) * GE)"
proof (cases "N = 0")
  case True
  then show ?thesis by simp
next
  case False
  have "int32 (int32 (x + int N * GE) + GE) = int32 (x + int N * GE + GE)"
    by (rule int32_int32_add)
  also have "x + int N * GE + GE = x + int (Suc N) * GE"
    by (simp add: algebra_simps)
  finally show ?thesis using False by simp
qed

lemma init_step_fields:
  assumes "Suc n < length (i_vecPen_m s)"
  shows "i_storedDel_score (init_step GE g n s) = int32 (i_storedDel_score s + GE)"
    and "i_vecPen_m (init_step GE g n s)
          = (i_vecPen_m s)[Suc n := int32 (i_storedDel_score s + GE)]"
    and "i_vecIns_m (init_step GE g n s)
          = (i_vecIns_m s)[Suc n := int32 (int32 (i_storedDel_score s + GE) + g)]"
    and "i_rowTra (init_step GE g n s)
          = (i_rowTra s)[Suc n := cigar_pack (word_of_nat (Suc n)) BAM_CDEL]"
    and "i_I_ext_m (init_step GE g n s) = (i_I_ext_m s)[Suc n := 0]"
  using assms init_cell [of "Suc n"] by (simp_all add: init_step_def Let_def)

lemma init_step_fold:
  fixes GE g :: int and N :: nat and s0 :: init_state
  assumes "N < length (i_vecPen_m s0)" "N < length (i_vecIns_m s0)"
    "N < length (i_rowTra s0)" "N < length (i_I_ext_m s0)"
  defines "s \<equiv> fold (init_step GE g) [0..<N] s0"
  shows "i_storedDel_score s
      = (if N = 0 then i_storedDel_score s0 else int32 (i_storedDel_score s0 + int N * GE))
    \<and> length (i_vecPen_m s) = length (i_vecPen_m s0)
    \<and> length (i_vecIns_m s) = length (i_vecIns_m s0)
    \<and> length (i_rowTra s) = length (i_rowTra s0)
    \<and> length (i_I_ext_m s) = length (i_I_ext_m s0)
    \<and> (\<forall>j. 1 \<le> j \<and> j \<le> N \<longrightarrow>
          i_vecPen_m s ! j = int32 (i_storedDel_score s0 + int j * GE)
        \<and> i_vecIns_m s ! j = int32 (int32 (i_storedDel_score s0 + int j * GE) + g)
        \<and> i_rowTra s ! j = cigar_pack (word_of_nat j) BAM_CDEL
        \<and> i_I_ext_m s ! j = 0)
    \<and> (\<forall>j. j = 0 \<or> N < j \<longrightarrow>
          i_vecPen_m s ! j = i_vecPen_m s0 ! j
        \<and> i_vecIns_m s ! j = i_vecIns_m s0 ! j
        \<and> i_rowTra s ! j = i_rowTra s0 ! j
        \<and> i_I_ext_m s ! j = i_I_ext_m s0 ! j)"
  using assms(1-4) unfolding s_def
proof (induction N)
  case 0
  then show ?case by simp
next
  case (Suc N)
  from Suc.prems have lt: "N < length (i_vecPen_m s0)" "N < length (i_vecIns_m s0)"
    "N < length (i_rowTra s0)" "N < length (i_I_ext_m s0)" by simp_all
  define t where "t = fold (init_step GE g) [0..<N] s0"
  note IH = Suc.IH [OF lt, folded t_def]
  have fold: "fold (init_step GE g) [0..<Suc N] s0 = init_step GE g N t"
    by (simp add: t_def)
  from IH Suc.prems have len: "Suc N < length (i_vecPen_m t)" "Suc N < length (i_vecIns_m t)"
    "Suc N < length (i_rowTra t)" "Suc N < length (i_I_ext_m t)" by simp_all
  note S = init_step_fields [OF len(1), of GE g]
  from IH have "i_storedDel_score t
      = (if N = 0 then i_storedDel_score s0 else int32 (i_storedDel_score s0 + int N * GE))"
    by blast
  then have sd: "int32 (i_storedDel_score t + GE) = int32 (i_storedDel_score s0 + int (Suc N) * GE)"
    by (simp only: int32_step)
  show ?case
    unfolding fold S sd using IH len
    by (auto simp: nth_list_update le_Suc_eq)
qed

lemma init_semi_step_fold:
  fixes g :: int and N :: nat and s0 :: init_state
  assumes "N < length (i_vecPen_m s0)" "N < length (i_vecIns_m s0)"
    "N < length (i_rowTra s0)" "N < length (i_I_ext_m s0)"
  defines "s \<equiv> fold (init_semi_step g) [0..<N] s0"
  shows "length (i_vecPen_m s) = length (i_vecPen_m s0)
    \<and> length (i_vecIns_m s) = length (i_vecIns_m s0)
    \<and> length (i_rowTra s) = length (i_rowTra s0)
    \<and> length (i_I_ext_m s) = length (i_I_ext_m s0)
    \<and> (\<forall>j. 1 \<le> j \<and> j \<le> N \<longrightarrow>
          i_vecPen_m s ! j = 0
        \<and> i_vecIns_m s ! j = int32 g
        \<and> i_rowTra s ! j = cigar_pack (word_of_nat j) BAM_CDEL
        \<and> i_I_ext_m s ! j = 0)
    \<and> (\<forall>j. j = 0 \<or> N < j \<longrightarrow>
          i_vecPen_m s ! j = i_vecPen_m s0 ! j
        \<and> i_vecIns_m s ! j = i_vecIns_m s0 ! j
        \<and> i_rowTra s ! j = i_rowTra s0 ! j
        \<and> i_I_ext_m s ! j = i_I_ext_m s0 ! j)"
  using assms(1-4) unfolding s_def
proof (induction N)
  case 0
  then show ?case by simp
next
  case (Suc N)
  from Suc.prems have lt: "N < length (i_vecPen_m s0)" "N < length (i_vecIns_m s0)"
    "N < length (i_rowTra s0)" "N < length (i_I_ext_m s0)" by simp_all
  note IH = Suc.IH [OF lt]
  show ?case
    using IH Suc.prems
    by (auto simp: init_semi_step_def Let_def nth_list_update init_cell le_Suc_eq)
qed

text \<open>
  Claim C3, as the code has it. In global mode row 0 of the score vector starts at 0; the
  first column costs the base constant \<^verbatim>\<open>GAP_OPEN_EXTEND\<close> and every further column
  the base constant \<^verbatim>\<open>GAP_EXTEND\<close>, so that column \<open>j \<ge> 1\<close> holds
  \<open>GAP_OPEN_EXTEND + (j - 1) * GAP_EXTEND\<close>, provided that these sums fit a 32-bit
  \<^verbatim>\<open>int\<close> (\<open>row0_fits\<close>: no score of the row overflows); no table indexed by the quality
  of the first query base enters. The trace cell at \<open>(0, j)\<close> for \<open>1 \<le> j \<le> subdb_len\<close>
  is the packed pair \<open>(j, DEL)\<close>: its operation is \<^verbatim>\<open>BAM_CDEL\<close> and, for \<open>j\<close> below
  \<open>2 ^ 28\<close>, its run length is \<open>j\<close>.
\<close>

theorem align_init_row0:
  assumes "asw_align_init al = Inr al'" and fits: "row0_fits al"
  shows "vecPen_m_act al' ! 0 = 0
    \<and> (\<forall>j. 1 \<le> j \<and> j \<le> unat (subdb_len al) \<longrightarrow>
          vecPen_m_act al' ! j = GAP_OPEN_EXTEND al + (int j - 1) * GAP_EXTEND al
        \<and> vecPen_m_act al' ! j
            = vecPen_m_act al' ! (j - 1) + (if j = 1 then GAP_OPEN_EXTEND al else GAP_EXTEND al)
        \<and> matTra al' ! 0 ! j = cigar_pack (word_of_nat j) BAM_CDEL
        \<and> cigar_op (matTra al' ! 0 ! j) = BAM_CDEL
        \<and> (j < 2 ^ 28 \<longrightarrow> unat (cigar_len (matTra al' ! 0 ! j)) = j))"
proof -
  from assms have inb: "init_in_bounds al"
    by (auto simp: asw_align_init_def split: if_splits)
  define g where "g = int32 (pen_at (gopen_penalty al) (phred_offset al) (qual al ! subqual al)
                      - pen_at (gext_penalty al) (phred_offset al) (qual al ! subqual al))"
  define s0 where "s0 =
    \<lparr>i_storedDel_score =
       int32 ((vecPen_m_act al)[0 := 0] ! 0 + int32 (GAP_OPEN_EXTEND al - GAP_EXTEND al)),
     i_vecPen_m = (vecPen_m_act al)[0 := 0],
     i_vecIns_m = (vecIns_m_act al)[0 := int32 ((vecPen_m_act al)[0 := 0] ! 0 + g)],
     i_rowTra = (matTra al ! 0)[0 := cigar_pack 0 BAM_CSEQ_MATCH],
     i_I_ext_m = (I_ext_m_act al)[0 := 0]\<rparr>"
  define s where "s = fold (init_step (GAP_EXTEND al) g) [0..<unat (subdb_len al)] s0"
  from assms inb have al': "al' = al\<lparr>vecPen_m_act := i_vecPen_m s, vecIns_m_act := i_vecIns_m s,
      I_ext_m_act := i_I_ext_m s, matTra := (matTra al)[0 := i_rowTra s]\<rparr>"
    by (simp add: asw_align_init_def Let_def s_def s0_def g_def)
  from inb have len: "unat (subdb_len al) < length (i_vecPen_m s0)"
    "unat (subdb_len al) < length (i_vecIns_m s0)"
    "unat (subdb_len al) < length (i_rowTra s0)"
    "unat (subdb_len al) < length (i_I_ext_m s0)"
    by (simp_all add: init_in_bounds_def s0_def)
  note F = init_step_fold [OF len, of "GAP_EXTEND al" g, folded s_def]
  from inb have pos: "0 < length (vecPen_m_act al)" "0 < length (matTra al)"
    by (auto simp: init_in_bounds_def)
  have fit: "int_fits (GAP_OPEN_EXTEND al + (int k - 1) * GAP_EXTEND al)"
    if "k \<le> unat (subdb_len al)" for k
  proof -
    from fits have "\<forall>k\<in>set [0..<unat (subdb_len al) + 1].
        int_fits (GAP_OPEN_EXTEND al + (int k - 1) * GAP_EXTEND al)"
      unfolding row0_fits_def list_all_iff .
    moreover from that have "k \<in> set [0..<unat (subdb_len al) + 1]" by auto
    ultimately show ?thesis by blast
  qed
  from fit [of 0] have "int_fits (GAP_OPEN_EXTEND al - GAP_EXTEND al)" by simp
  then have sd: "i_storedDel_score s0 = GAP_OPEN_EXTEND al - GAP_EXTEND al"
    using pos by (simp add: s0_def int32_fits)
  have v0: "vecPen_m_act al' ! 0 = 0"
    using F pos by (simp add: al' s0_def)
  have vj: "vecPen_m_act al' ! j = GAP_OPEN_EXTEND al + (int j - 1) * GAP_EXTEND al"
    if "1 \<le> j" "j \<le> unat (subdb_len al)" for j
  proof -
    from F that have "vecPen_m_act al' ! j = int32 (i_storedDel_score s0 + int j * GAP_EXTEND al)"
      by (simp add: al')
    also have "i_storedDel_score s0 + int j * GAP_EXTEND al
        = GAP_OPEN_EXTEND al + (int j - 1) * GAP_EXTEND al"
      by (simp add: sd algebra_simps)
    finally show ?thesis using fit [OF that(2)] by (simp add: int32_fits)
  qed
  have tj: "matTra al' ! 0 ! j = cigar_pack (word_of_nat j) BAM_CDEL"
    if "1 \<le> j" "j \<le> unat (subdb_len al)" for j
    using F that pos by (simp add: al')
  show ?thesis
  proof (intro conjI allI impI)
    show "vecPen_m_act al' ! 0 = 0" by (fact v0)
  next
    fix j assume j: "1 \<le> j \<and> j \<le> unat (subdb_len al)"
    then show "vecPen_m_act al' ! j = GAP_OPEN_EXTEND al + (int j - 1) * GAP_EXTEND al"
      by (simp add: vj)
    show "vecPen_m_act al' ! j
            = vecPen_m_act al' ! (j - 1) + (if j = 1 then GAP_OPEN_EXTEND al else GAP_EXTEND al)"
    proof (cases "j = 1")
      case True
      with j v0 vj [of 1] show ?thesis by simp
    next
      case False
      with j have "1 \<le> j - 1" "j - 1 \<le> unat (subdb_len al)" by auto
      from vj [OF this] vj [of j] j False show ?thesis
        by (simp add: algebra_simps of_nat_diff)
    qed
    from j show "matTra al' ! 0 ! j = cigar_pack (word_of_nat j) BAM_CDEL"
      by (simp add: tj)
    from j show "cigar_op (matTra al' ! 0 ! j) = BAM_CDEL"
      by (simp add: tj cigar_op_pack BAM_CDEL_def)
  next
    fix j assume j: "1 \<le> j \<and> j \<le> unat (subdb_len al)" and "j < 2 ^ 28"
    then show "unat (cigar_len (matTra al' ! 0 ! j)) = j"
      by (simp add: tj unat_cigar_len_pack_nat BAM_CDEL_def)
  qed
qed

text \<open>
  Reference \<^verbatim>\<open>ACG\<close>, query \<^verbatim>\<open>A\<close>, default penalties: the sums 30, 50, 70 and 90 fit, and
  column 2 holds 70.
\<close>

theorem align_init_row0_witness:
  "asw_align_init (ex_engine ''ACG'' ''A'') = Inr (projr (asw_align_init (ex_engine ''ACG'' ''A'')))
   \<and> row0_fits (ex_engine ''ACG'' ''A'')
   \<and> vecPen_m_act (projr (asw_align_init (ex_engine ''ACG'' ''A''))) ! 0 = 0
   \<and> vecPen_m_act (projr (asw_align_init (ex_engine ''ACG'' ''A''))) ! 2
       = GAP_OPEN_EXTEND (ex_engine ''ACG'' ''A'') + (int 2 - 1) * GAP_EXTEND (ex_engine ''ACG'' ''A'')
   \<and> vecPen_m_act (projr (asw_align_init (ex_engine ''ACG'' ''A''))) ! 2 = 70
   \<and> unat (cigar_len (matTra (projr (asw_align_init (ex_engine ''ACG'' ''A''))) ! 0 ! 2)) = 2"
proof -
  have r: "asw_align_init (ex_engine ''ACG'' ''A'')
             = Inr (projr (asw_align_init (ex_engine ''ACG'' ''A'')))"
    by code_simp
  have f: "row0_fits (ex_engine ''ACG'' ''A'')"
    by code_simp
  have n: "unat (subdb_len (ex_engine ''ACG'' ''A'')) = 3"
    by code_simp
  have c: "GAP_OPEN_EXTEND (ex_engine ''ACG'' ''A'') = 50" "GAP_EXTEND (ex_engine ''ACG'' ''A'') = 20"
    by code_simp+
  from align_init_row0 [OF r f] have
    a: "vecPen_m_act (projr (asw_align_init (ex_engine ''ACG'' ''A''))) ! 0 = 0" and
    b: "1 \<le> j \<and> j \<le> unat (subdb_len (ex_engine ''ACG'' ''A'')) \<longrightarrow>
          vecPen_m_act (projr (asw_align_init (ex_engine ''ACG'' ''A''))) ! j
            = GAP_OPEN_EXTEND (ex_engine ''ACG'' ''A'')
              + (int j - 1) * GAP_EXTEND (ex_engine ''ACG'' ''A'')
        \<and> (j < 2 ^ 28 \<longrightarrow>
             unat (cigar_len (matTra (projr (asw_align_init (ex_engine ''ACG'' ''A''))) ! 0 ! j)) = j)"
    for j by blast+
  from b [of 2] n a r f c show ?thesis by simp
qed

text \<open>
  Claim C3 as stated fails: with the default penalties and quality 40 at the first query
  base the quality-weighted gap-extend penalty is 30, but column 1 holds 50 and column 2
  holds 70.
\<close>

theorem align_init_row0_counterexample:
  "asw_align_init (ex_engine ''ACG'' ''A'') = Inr (projr (asw_align_init (ex_engine ''ACG'' ''A'')))
   \<and> pen_at (gext_penalty (ex_engine ''ACG'' ''A'')) (phred_offset (ex_engine ''ACG'' ''A''))
        (qual (ex_engine ''ACG'' ''A'') ! subqual (ex_engine ''ACG'' ''A'')) = 30
   \<and> vecPen_m_act (projr (asw_align_init (ex_engine ''ACG'' ''A''))) ! 0 = 0
   \<and> vecPen_m_act (projr (asw_align_init (ex_engine ''ACG'' ''A''))) ! 1 = 50
   \<and> vecPen_m_act (projr (asw_align_init (ex_engine ''ACG'' ''A''))) ! 2 = 70"
  by code_simp

section \<open>The recurrence of asw\_align\<close>

lemma align_cell_length [simp]:
  "length (vecPen_m1 (align_cell e n s)) = length (vecPen_m1 s)"
  "length (vecIns_m1 (align_cell e n s)) = length (vecIns_m1 s)"
  "length (I_ext_m1 (align_cell e n s)) = length (I_ext_m1 s)"
  "length (rowTra (align_cell e n s)) = length (rowTra s)"
  by (simp_all add: align_cell_def Let_def split: prod.splits)

lemma align_cell_frame:
  "j \<noteq> n + 1 \<Longrightarrow> vecPen_m1 (align_cell e n s) ! j = vecPen_m1 s ! j"
  "j \<noteq> n + 1 \<Longrightarrow> vecIns_m1 (align_cell e n s) ! j = vecIns_m1 s ! j"
  "j \<noteq> n + 1 \<Longrightarrow> I_ext_m1 (align_cell e n s) ! j = I_ext_m1 s ! j"
  "j \<noteq> n + 1 \<Longrightarrow> rowTra (align_cell e n s) ! j = rowTra s ! j"
  by (simp_all add: align_cell_def Let_def split: prod.splits)

lemma align_cells_length [simp]:
  "length (vecPen_m1 (fold (align_cell e) [a..<b] s)) = length (vecPen_m1 s)"
  "length (vecIns_m1 (fold (align_cell e) [a..<b] s)) = length (vecIns_m1 s)"
  "length (I_ext_m1 (fold (align_cell e) [a..<b] s)) = length (I_ext_m1 s)"
  "length (rowTra (fold (align_cell e) [a..<b] s)) = length (rowTra s)"
  by (induction b; simp)+

lemma align_cells_frame:
  "j \<le> a \<or> b < j \<Longrightarrow> vecPen_m1 (fold (align_cell e) [a..<b] s) ! j = vecPen_m1 s ! j"
  "j \<le> a \<or> b < j \<Longrightarrow> vecIns_m1 (fold (align_cell e) [a..<b] s) ! j = vecIns_m1 s ! j"
  "j \<le> a \<or> b < j \<Longrightarrow> I_ext_m1 (fold (align_cell e) [a..<b] s) ! j = I_ext_m1 s ! j"
  "j \<le> a \<or> b < j \<Longrightarrow> rowTra (fold (align_cell e) [a..<b] s) ! j = rowTra s ! j"
  by (induction b; auto simp: align_cell_frame)+

lemma upt_split3: "n < N \<Longrightarrow> [0..<N] = [0..<n] @ n # [Suc n..<N]"
  by (metis upt_conv_Cons upt_add_eq_append le0 less_imp_le_nat le_add_diff_inverse)

lemma align_cells_at:
  assumes "n < N"
  shows "rowTra (fold (align_cell e) [0..<N] s0) ! (n + 1)
           = rowTra (align_cell e n (fold (align_cell e) [0..<n] s0)) ! (n + 1)"
  using assms by (simp add: upt_split3 [of n N] align_cells_frame)

lemma align_row_matTra_length [simp]:
  "length (l_matTra (align_row al m l)) = length (l_matTra l)"
  by (simp add: align_row_def Let_def)

lemma align_row_matTra_frame:
  "i \<noteq> m + 1 \<Longrightarrow> l_matTra (align_row al m l) ! i = l_matTra l ! i"
  by (simp add: align_row_def Let_def)

lemma align_rows_matTra_length [simp]:
  "length (l_matTra (fold (align_row al) [a..<b] l)) = length (l_matTra l)"
  by (induction b) simp_all

lemma align_rows_matTra_frame:
  "i \<le> a \<or> b < i \<Longrightarrow> l_matTra (fold (align_row al) [a..<b] l) ! i = l_matTra l ! i"
  by (induction b) (auto simp: align_row_matTra_frame)

lemma align_rows_at:
  assumes "m < M" "m + 1 < length (l_matTra l0)"
  shows "l_matTra (fold (align_row al) [0..<M] l0) ! (m + 1)
     = rowTra (fold (align_cell (row_env_of al (fold (align_row al) [0..<m] l0) m))
                 [0..<unat (subdb_len al)]
                 (row_start (row_env_of al (fold (align_row al) [0..<m] l0) m)
                    (fold (align_row al) [0..<m] l0) (m + 1)))"
proof -
  have "l_matTra (fold (align_row al) [0..<M] l0) ! (m + 1)
          = l_matTra (align_row al m (fold (align_row al) [0..<m] l0)) ! (m + 1)"
    using assms(1) by (simp add: upt_split3 [of m M] align_rows_matTra_frame)
  also have "\<dots> = rowTra (fold (align_cell (row_env_of al (fold (align_row al) [0..<m] l0) m))
                 [0..<unat (subdb_len al)]
                 (row_start (row_env_of al (fold (align_row al) [0..<m] l0) m)
                    (fold (align_row al) [0..<m] l0) (m + 1)))"
    using assms(2) by (simp add: align_row_def Let_def)
  finally show ?thesis .
qed

lemma asw_align_matTra:
  assumes "asw_align al = Inr al'"
  shows "matTra al' = l_matTra (fold (align_row al) [0..<unat (subquery_len al)] (align_locals_of al))"
  using assms by (auto simp: asw_align_def Let_def split: if_splits)

lemma align_in_bounds_rows:
  assumes "align_in_bounds al" "subquery_len al \<noteq> 0"
  shows "unat (subdb_len al) < length (vecPen_m_act al)"
    "unat (subdb_len al) < length (vecPen_m1_act al)"
    "unat (subdb_len al) < length (vecIns_m_act al)"
    "unat (subdb_len al) < length (vecIns_m1_act al)"
    "unat (subdb_len al) < length (I_ext_m_act al)"
    "unat (subdb_len al) < length (I_ext_m1_act al)"
    "unat (subquery_len al) < length (matTra al)"
    "subdb al + unat (subdb_len al) \<le> length (db al)"
  using assms by (simp_all add: align_in_bounds_def)

lemma align_in_bounds_matTra:
  assumes "align_in_bounds al" "1 \<le> m1" "m1 \<le> unat (subquery_len al)"
  shows "unat (subdb_len al) < length (matTra al ! m1)"
proof -
  from assms(2,3) have "subquery_len al \<noteq> 0" by (auto simp: unat_eq_zero)
  with assms(1) have "list_all (\<lambda>m1. unat (subdb_len al) < length (matTra al ! m1))
           [1..<unat (subquery_len al) + 1]"
    by (simp add: align_in_bounds_def)
  moreover from assms(2,3) have "m1 \<in> set [1..<unat (subquery_len al) + 1]" by auto
  ultimately show ?thesis unfolding list_all_iff by blast
qed

lemma align_row_lens:
  "length (l_vecPen_m (align_row al m l)) = length (l_vecPen_m1 l)"
  "length (l_vecPen_m1 (align_row al m l)) = length (l_vecPen_m l)"
  "length (l_vecIns_m (align_row al m l)) = length (l_vecIns_m1 l)"
  "length (l_vecIns_m1 (align_row al m l)) = length (l_vecIns_m l)"
  "length (l_I_ext_m (align_row al m l)) = length (l_I_ext_m1 l)"
  "length (l_I_ext_m1 (align_row al m l)) = length (l_I_ext_m l)"
  by (simp_all add: align_row_def Let_def row_start_def)

lemma align_rows_lens:
  assumes "N < length (l_vecPen_m l0)" "N < length (l_vecPen_m1 l0)"
    "N < length (l_vecIns_m l0)" "N < length (l_vecIns_m1 l0)"
    "N < length (l_I_ext_m l0)" "N < length (l_I_ext_m1 l0)"
  shows "N < length (l_vecPen_m (fold (align_row al) [0..<m] l0))
    \<and> N < length (l_vecPen_m1 (fold (align_row al) [0..<m] l0))
    \<and> N < length (l_vecIns_m (fold (align_row al) [0..<m] l0))
    \<and> N < length (l_vecIns_m1 (fold (align_row al) [0..<m] l0))
    \<and> N < length (l_I_ext_m (fold (align_row al) [0..<m] l0))
    \<and> N < length (l_I_ext_m1 (fold (align_row al) [0..<m] l0))"
  using assms by (induction m) (simp_all add: align_row_lens)

lemma align_cell_fields:
  "storedDel_score (align_cell e n s) = wD e s n"
  "cD (align_cell e n s) = cD_next e s n"
  "n + 1 < length (vecIns_m1 s) \<Longrightarrow> vecIns_m1 (align_cell e n s) ! (n + 1) = wI e n"
  "n + 1 < length (I_ext_m1 s) \<Longrightarrow> I_ext_m1 (align_cell e n s) ! (n + 1) = cI e n"
  by (simp_all add: align_cell_def Let_def split: prod.splits)

lemma align_cell_rowTra:
  "n + 1 < length (rowTra s) \<Longrightarrow>
   rowTra (align_cell e n s) ! (n + 1)
     = (if wI e n < wM e n
        then (if wD e s n < wI e n then cigar_pack (cD_next e s n) BAM_CDEL
              else cigar_pack (cI e n) BAM_CINS)
        else if wD e s n < wM e n then cigar_pack (cD_next e s n) BAM_CDEL
        else cigar_pack 1 (mstate e n))"
  by (simp add: align_cell_def Let_def split: prod.splits)

lemma align_cell_vecPen:
  "n + 1 < length (vecPen_m1 s) \<Longrightarrow>
   vecPen_m1 (align_cell e n s) ! (n + 1) = min (wM e n) (min (wI e n) (wD e s n))"
  by (simp add: align_cell_def Let_def split: prod.splits)

text \<open>
  Claim C1. Let \<open>l\<close> be the local variables of \<^verbatim>\<open>asw_align\<close> after \<open>m\<close> rows, \<open>e\<close> the
  values fixed for row \<open>m + 1\<close> and \<open>s\<close> the state of its inner loop before column
  \<open>n + 1\<close>. The iteration for the interior cell \<open>(m + 1, n + 1)\<close> chooses the deletion
  candidate as open with run length 1 if \<open>wD_open < wD_extend\<close> and else as extend with
  the previous run length plus 1, the insertion candidate likewise from the insertion
  lengths of the previous row, stores \<open>min wM (min wI wD)\<close> as the score of the cell, and the
  trace cell that \<^verbatim>\<open>asw_align\<close> returns there is the packed run length and operation of
  the candidate chosen with priority M, I, D: I only if \<open>wI < wM\<close>, within that D only if
  \<open>wD < wI\<close>, otherwise D only if \<open>wD < wM\<close>, else M with run length 1.
\<close>

theorem align_cell_recurrence:
  assumes "asw_align al = Inr al'" and "m < unat (subquery_len al)" and "n < unat (subdb_len al)"
  defines "l \<equiv> fold (align_row al) [0..<m] (align_locals_of al)"
  defines "e \<equiv> row_env_of al l m"
  defines "s \<equiv> fold (align_cell e) [0..<n] (row_start e l (m + 1))"
  shows "cD (align_cell e n s) = (if wD_open e s n < wD_extend e s then 1 else cD s + 1)
    \<and> storedDel_score (align_cell e n s)
        = (if wD_open e s n < wD_extend e s then wD_open e s n else wD_extend e s)
    \<and> wD e s n = storedDel_score (align_cell e n s)
    \<and> I_ext_m1 (align_cell e n s) ! (n + 1)
        = (if wI_open e n < wI_extend e n then 1 else e_I_ext_m e ! (n + 1) + 1)
    \<and> vecIns_m1 (align_cell e n s) ! (n + 1)
        = (if wI_open e n < wI_extend e n then wI_open e n else wI_extend e n)
    \<and> wI e n = vecIns_m1 (align_cell e n s) ! (n + 1)
    \<and> vecPen_m1 (align_cell e n s) ! (n + 1) = min (wM e n) (min (wI e n) (wD e s n))
    \<and> matTra al' ! (m + 1) ! (n + 1)
        = (if wI e n < wM e n
           then (if wD e s n < wI e n
                 then cigar_pack (cD (align_cell e n s)) BAM_CDEL
                 else cigar_pack (I_ext_m1 (align_cell e n s) ! (n + 1)) BAM_CINS)
           else if wD e s n < wM e n
           then cigar_pack (cD (align_cell e n s)) BAM_CDEL
           else cigar_pack 1 (if is_seq_match e n then BAM_CSEQ_MATCH else BAM_CSEQ_MISMATCH))"
proof -
  from assms(1,2) have inb: "align_in_bounds al" and nz: "subquery_len al \<noteq> 0"
    by (auto simp: asw_align_def split: if_splits)
  note lens = align_in_bounds_rows [OF inb nz]
  from assms(2) have rowlen: "unat (subdb_len al) < length (matTra al ! (m + 1))"
    by (intro align_in_bounds_matTra [OF inb]) simp_all
  have mat: "matTra al' ! (m + 1)
      = rowTra (fold (align_cell e) [0..<unat (subdb_len al)] (row_start e l (m + 1)))"
    unfolding asw_align_matTra [OF assms(1)] e_def l_def
    using assms(2) lens(7) by (intro align_rows_at) (simp_all add: align_locals_of_def)
  have cell: "matTra al' ! (m + 1) ! (n + 1) = rowTra (align_cell e n s) ! (n + 1)"
    unfolding mat s_def using assms(3) by (rule align_cells_at)
  have len_s: "n + 1 < length (vecPen_m1 s)" "n + 1 < length (vecIns_m1 s)"
    "n + 1 < length (I_ext_m1 s)" "n + 1 < length (rowTra s)"
  proof -
    have "unat (subdb_len al) < length (l_vecPen_m1 l)
        \<and> unat (subdb_len al) < length (l_vecIns_m1 l)
        \<and> unat (subdb_len al) < length (l_I_ext_m1 l)"
      unfolding l_def
      using align_rows_lens [of "unat (subdb_len al)" "align_locals_of al" al m] lens
      by (simp add: align_locals_of_def)
    moreover have "l_matTra l ! (m + 1) = matTra al ! (m + 1)"
      unfolding l_def by (simp add: align_rows_matTra_frame align_locals_of_def)
    ultimately show "n + 1 < length (vecPen_m1 s)" "n + 1 < length (vecIns_m1 s)"
      "n + 1 < length (I_ext_m1 s)" "n + 1 < length (rowTra s)"
      using assms(3) rowlen by (simp_all add: s_def row_start_def Let_def)
  qed
  show ?thesis
    unfolding cell
    by (simp only: align_cell_fields align_cell_rowTra align_cell_vecPen len_s)
       (simp add: wD_def cD_next_def wI_def cI_def mstate_def)
qed

theorem align_cell_recurrence_witness:
  "asw_align (ex_init ''AC'' ''AC'') = Inr (projr (asw_align (ex_init ''AC'' ''AC'')))
   \<and> (1 :: nat) < unat (subquery_len (ex_init ''AC'' ''AC''))
   \<and> (1 :: nat) < unat (subdb_len (ex_init ''AC'' ''AC''))
   \<and> vecPen_m1 (align_cell ex_e 1 ex_s) ! (1 + 1) = min (wM ex_e 1) (min (wI ex_e 1) (wD ex_e ex_s 1))
   \<and> wM ex_e 1 = 0 \<and> wI ex_e 1 = 110 \<and> wD ex_e ex_s 1 = 110
   \<and> matTra (projr (asw_align (ex_init ''AC'' ''AC''))) ! 2 ! 2 = cigar_pack 1 BAM_CSEQ_MATCH"
proof -
  have h1: "asw_align (ex_init ''AC'' ''AC'') = Inr (projr (asw_align (ex_init ''AC'' ''AC'')))"
    by code_simp
  have h2: "(1 :: nat) < unat (subquery_len (ex_init ''AC'' ''AC''))"
    by code_simp
  have h3: "(1 :: nat) < unat (subdb_len (ex_init ''AC'' ''AC''))"
    by code_simp
  have c: "vecPen_m1 (align_cell ex_e 1 ex_s) ! (1 + 1)
             = min (wM ex_e 1) (min (wI ex_e 1) (wD ex_e ex_s 1))"
    using align_cell_recurrence [OF h1 h2 h3, folded ex_l_def ex_e_def ex_s_def] by blast
  have v: "wM ex_e 1 = 0" "wI ex_e 1 = 110" "wD ex_e ex_s 1 = 110"
    by code_simp+
  have t: "matTra (projr (asw_align (ex_init ''AC'' ''AC''))) ! 2 ! 2 = cigar_pack 1 BAM_CSEQ_MATCH"
    by code_simp
  from h1 h2 h3 c v t show ?thesis by blast
qed

section \<open>The match predicate\<close>

text \<open>
  Claim C2, as the code has it. \<^verbatim>\<open>IS_MATCH(m_subdb[n], cq)\<close> compares its second
  argument, the query character, with \<^verbatim>\<open>AMBIGUOUS_BASE\<close>: for the cell in row \<open>m + 1\<close>
  and column \<open>n + 1\<close> the predicate holds exactly when the reference character at \<open>n\<close>
  equals the query character at \<open>m\<close> or the query character is \<^verbatim>\<open>N\<close>. A matching cell
  takes the match penalty at the quality of the query base and the operation \<^verbatim>\<open>=\<close>,
  any other cell the mismatch penalty and \<^verbatim>\<open>X\<close>.
\<close>

theorem is_seq_match_query_wildcard:
  assumes "subdb al + n < length (db al)"
  shows "(is_seq_match (row_env_of al l m) n \<longleftrightarrow>
            db al ! (subdb al + n) = query al ! (subquery al + m)
            \<or> query al ! (subquery al + m) = CHR ''N'')
    \<and> wM (row_env_of al l m) n
        = l_vecPen_m l ! n
          + (if is_seq_match (row_env_of al l m) n
             then pen_at (match_penalty al) (phred_offset al) (qual al ! (subqual al + m))
             else pen_at (mismatch_penalty al) (phred_offset al) (qual al ! (subqual al + m)))
    \<and> mstate (row_env_of al l m) n
        = (if is_seq_match (row_env_of al l m) n then BAM_CSEQ_MATCH else BAM_CSEQ_MISMATCH)"
  using assms
  by (simp add: is_seq_match_def IS_MATCH_def AMBIGUOUS_BASE_def row_env_of_def Let_def
        wM_def mstate_def)

text \<open>A query \<^verbatim>\<open>N\<close> against the reference base \<^verbatim>\<open>A\<close> is a match.\<close>

theorem is_seq_match_query_wildcard_witness:
  "subdb (ex_init ''A'' ''N'') + 0 < length (db (ex_init ''A'' ''N''))
   \<and> is_seq_match (row_env_of (ex_init ''A'' ''N'') (align_locals_of (ex_init ''A'' ''N'')) 0) 0
   \<and> db (ex_init ''A'' ''N'') ! (subdb (ex_init ''A'' ''N'') + 0) = CHR ''A''
   \<and> query (ex_init ''A'' ''N'') ! (subquery (ex_init ''A'' ''N'') + 0) = CHR ''N''"
proof -
  have h: "subdb (ex_init ''A'' ''N'') + 0 < length (db (ex_init ''A'' ''N''))"
    by code_simp
  have d: "db (ex_init ''A'' ''N'') ! (subdb (ex_init ''A'' ''N'') + 0) = CHR ''A''"
    by code_simp
  have q: "query (ex_init ''A'' ''N'') ! (subquery (ex_init ''A'' ''N'') + 0) = CHR ''N''"
    by code_simp
  from is_seq_match_query_wildcard [OF h, of "align_locals_of (ex_init ''A'' ''N'')" 0] q
  have "is_seq_match (row_env_of (ex_init ''A'' ''N'') (align_locals_of (ex_init ''A'' ''N'')) 0) 0"
    by blast
  with h d q show ?thesis by simp
qed

text \<open>
  Claim C2 as stated fails: the reference base \<^verbatim>\<open>N\<close> against the query base \<^verbatim>\<open>A\<close>
  is not a match, and the alignment of the two records a mismatch at the mismatch
  penalty 40.
\<close>

theorem is_seq_match_counterexample:
  "db (ex_init ''N'' ''A'') ! (subdb (ex_init ''N'' ''A'') + 0) = CHR ''N''
   \<and> query (ex_init ''N'' ''A'') ! (subquery (ex_init ''N'' ''A'') + 0) = CHR ''A''
   \<and> \<not> is_seq_match (row_env_of (ex_init ''N'' ''A'') (align_locals_of (ex_init ''N'' ''A'')) 0) 0
   \<and> fst (Qxalign_align False (ex_engine ''N'' ''A'')) = Inr 40
   \<and> matTra (snd (Qxalign_align False (ex_engine ''N'' ''A''))) ! 1 ! 1
       = cigar_pack 1 BAM_CSEQ_MISMATCH"
  by code_simp

section \<open>Empty input\<close>

text \<open>
  Claim C8. When the reference sub-view or the query sub-view has length zero,
  \<^verbatim>\<open>Qxalign_align\<close> raises its exception for empty input and the engine is unchanged:
  no row is initialised or filled and the stored result stays as it was.
\<close>

theorem Qxalign_align_empty:
  assumes "subdb_len al = 0 \<or> subquery_len al = 0"
  shows "Qxalign_align semi al = (Inl EmptyInput, al)"
  using assms by (simp add: Qxalign_align_def)

theorem Qxalign_align_empty_witness:
  "(subdb_len (ex_engine ''ACGT'' []) = 0 \<or> subquery_len (ex_engine ''ACGT'' []) = 0)
   \<and> Qxalign_align True (ex_engine ''ACGT'' []) = (Inl EmptyInput, ex_engine ''ACGT'' [])"
proof -
  have h: "subdb_len (ex_engine ''ACGT'' []) = 0 \<or> subquery_len (ex_engine ''ACGT'' []) = 0"
    by code_simp
  from Qxalign_align_empty [OF h, of True] h show ?thesis by simp
qed

section \<open>Clip arithmetic of the prepare functions\<close>

text \<open>
  The sub-view length is \<^verbatim>\<open>m_query_len - clip_head - clip_tail\<close> on \<^verbatim>\<open>size_t\<close>. When
  the two clips fit into the sequence, the stored length is at most the full length.
\<close>

lemma unat_ucast_32_64: "unat (ucast (w :: 32 word) :: 64 word) = unat w"
proof -
  have "unat w < 2 ^ 32" using unsigned_less [of w] by simp
  then have "unat w < 2 ^ 64" by simp
  then show ?thesis by (simp add: unsigned_ucast_eq take_bit_nat_eq_self)
qed

lemma clip_no_wrap:
  fixes len :: size_t and clip_head clip_tail :: "32 word"
  assumes "unat clip_head + unat clip_tail \<le> unat len"
  shows "len - ucast clip_head - ucast clip_tail \<le> len"
    and "unat (len - ucast clip_head - ucast clip_tail) = unat len - unat clip_head - unat clip_tail"
proof -
  have h: "unat (ucast clip_head :: size_t) = unat clip_head"
    by (simp add: unat_ucast_32_64)
  have t: "unat (ucast clip_tail :: size_t) = unat clip_tail"
    by (simp add: unat_ucast_32_64)
  from assms h have 1: "unat (len - ucast clip_head) = unat len - unat clip_head"
    by (simp add: unat_sub word_le_nat_alt)
  with assms t show 2: "unat (len - ucast clip_head - ucast clip_tail)
      = unat len - unat clip_head - unat clip_tail"
    by (simp add: unat_sub word_le_nat_alt)
  then show "len - ucast clip_head - ucast clip_tail \<le> len"
    by (simp add: word_le_nat_alt)
qed

lemma asw_prepare_query_no_wrap:
  assumes "unat clip_head + unat clip_tail \<le> unat m_query_len"
    and "asw_prepare_query alloc_ok al m_query m_qual m_query_len clip_head clip_tail = (Inr (), al')"
  shows "subquery_len al' \<le> query_len al'"
  using assms(2) clip_no_wrap(1) [OF assms(1)]
  by (auto simp: asw_prepare_query_def Let_def split: option.splits)

text \<open>
  Claim C9 at a failing input. A fresh engine is given a query of 3 bases with
  \<^verbatim>\<open>clip_head = 2\<close> and \<^verbatim>\<open>clip_tail = 2\<close>, and the allocator grants the request of 0
  bytes that follows (as \<^verbatim>\<open>PyMem_Realloc\<close>, which the binding installs, does):
  \<^verbatim>\<open>asw_prepare_query\<close> returns 0 and stores the sub-view length \<open>2 ^ 64 - 1\<close> beside the
  query length 3.
\<close>

theorem asw_prepare_query_wraps:
  "fst (asw_prepare_query ex_alloc asw_alloc ''ACG'' [73, 73, 73] 3 2 2) = Inr ()
   \<and> query_len (snd (asw_prepare_query ex_alloc asw_alloc ''ACG'' [73, 73, 73] 3 2 2)) = 3
   \<and> subquery_len (snd (asw_prepare_query ex_alloc asw_alloc ''ACG'' [73, 73, 73] 3 2 2))
       = 18446744073709551615
   \<and> \<not> subquery_len (snd (asw_prepare_query ex_alloc asw_alloc ''ACG'' [73, 73, 73] 3 2 2))
         \<le> query_len (snd (asw_prepare_query ex_alloc asw_alloc ''ACG'' [73, 73, 73] 3 2 2))"
  by code_simp

section \<open>The trace matrix after asw\_align\<close>

lemma unat_plus1: "unat (x :: 32 word) < 2 ^ 28 \<Longrightarrow> unat (x + 1) = unat x + 1"
  by (simp add: unat_word_ariths)

lemma cell_ok_del:
  "1 \<le> unat z \<Longrightarrow> unat z \<le> j \<Longrightarrow> j < 2 ^ 28 \<Longrightarrow> trace_cell_ok i j (cigar_pack z BAM_CDEL)"
proof -
  assume a: "1 \<le> unat z" "unat z \<le> j" "j < 2 ^ 28"
  then have "z < 2 ^ 28" by (simp add: word_less_nat_alt)
  then have "cigar_len (cigar_pack z BAM_CDEL) = z" "cigar_op (cigar_pack z BAM_CDEL) = BAM_CDEL"
    by (simp_all add: cigar_len_pack cigar_op_pack BAM_CDEL_def)
  with a show ?thesis by (simp add: trace_cell_ok_def)
qed

lemma cell_ok_ins:
  "1 \<le> unat z \<Longrightarrow> unat z \<le> i \<Longrightarrow> i < 2 ^ 28 \<Longrightarrow> trace_cell_ok i j (cigar_pack z BAM_CINS)"
proof -
  assume a: "1 \<le> unat z" "unat z \<le> i" "i < 2 ^ 28"
  then have "z < 2 ^ 28" by (simp add: word_less_nat_alt)
  then have "cigar_len (cigar_pack z BAM_CINS) = z" "cigar_op (cigar_pack z BAM_CINS) = BAM_CINS"
    by (simp_all add: cigar_len_pack cigar_op_pack BAM_CINS_def)
  with a show ?thesis by (simp add: trace_cell_ok_def)
qed

lemma cell_ok_diag:
  "1 \<le> i \<Longrightarrow> 1 \<le> j \<Longrightarrow> trace_cell_ok i j (cigar_pack 1 (mstate e n))"
proof -
  assume a: "1 \<le> i" "1 \<le> j"
  have "cigar_len (cigar_pack 1 (mstate e n)) = 1"
    by (rule cigar_len_pack) (simp_all add: mstate_def BAM_CSEQ_MATCH_def BAM_CSEQ_MISMATCH_def)
  moreover have "cigar_op (cigar_pack 1 (mstate e n)) = mstate e n"
    by (rule cigar_op_pack) (simp add: mstate_def BAM_CSEQ_MATCH_def BAM_CSEQ_MISMATCH_def)
  ultimately show ?thesis using a by (simp add: trace_cell_ok_def mstate_def)
qed

lemma align_cells_inv:
  assumes N: "N < 2 ^ 28" and m: "m + 1 < 2 ^ 28"
    and prev: "\<forall>j \<le> N. unat (e_I_ext_m e ! j) \<le> m"
    and lens: "N < length (rowTra s0)" "N < length (I_ext_m1 s0)"
    and start: "cD s0 = 0"
    and n: "n \<le> N"
  shows "unat (cD (fold (align_cell e) [0..<n] s0)) \<le> n
    \<and> (0 < n \<longrightarrow> 1 \<le> unat (cD (fold (align_cell e) [0..<n] s0)))
    \<and> (\<forall>j. 1 \<le> j \<and> j \<le> n \<longrightarrow>
          trace_cell_ok (m + 1) j (rowTra (fold (align_cell e) [0..<n] s0) ! j)
        \<and> 1 \<le> unat (I_ext_m1 (fold (align_cell e) [0..<n] s0) ! j)
        \<and> unat (I_ext_m1 (fold (align_cell e) [0..<n] s0) ! j) \<le> m + 1)"
  using n
proof (induction n)
  case 0
  then show ?case by (simp add: start)
next
  case (Suc n)
  define s where "s = fold (align_cell e) [0..<n] s0"
  from Suc.prems have nN: "n \<le> N" "n < N" by simp_all
  from Suc.IH [OF nN(1)] have
    cD_le: "unat (cD s) \<le> n" and
    old: "\<And>j. 1 \<le> j \<Longrightarrow> j \<le> n \<Longrightarrow>
            trace_cell_ok (m + 1) j (rowTra s ! j)
          \<and> 1 \<le> unat (I_ext_m1 s ! j) \<and> unat (I_ext_m1 s ! j) \<le> m + 1"
    unfolding s_def by blast+
  have step: "fold (align_cell e) [0..<Suc n] s0 = align_cell e n s"
    by (simp add: s_def)
  have len: "n + 1 < length (rowTra s)" "n + 1 < length (I_ext_m1 s)"
    using lens nN by (simp_all add: s_def)
  have cDn: "1 \<le> unat (cD_next e s n)" "unat (cD_next e s n) \<le> n + 1"
    using cD_le nN N by (auto simp: cD_next_def unat_plus1)
  from prev nN have pe: "unat (e_I_ext_m e ! (n + 1)) \<le> m" by simp
  with m have "unat (e_I_ext_m e ! (n + 1) + 1) = unat (e_I_ext_m e ! (n + 1)) + 1"
    by (intro unat_plus1) simp
  with pe have cIn: "1 \<le> unat (cI e n)" "unat (cI e n) \<le> m + 1"
    by (auto simp: cI_def)
  have new_tra: "trace_cell_ok (m + 1) (n + 1) (rowTra (align_cell e n s) ! (n + 1))"
    unfolding align_cell_rowTra [OF len(1)]
    using cDn cIn nN N m
    by (auto intro!: cell_ok_del cell_ok_ins cell_ok_diag)
  have new_ext: "I_ext_m1 (align_cell e n s) ! (n + 1) = cI e n"
    using len(2) by (rule align_cell_fields(4))
  show ?case
    unfolding step
  proof (intro conjI allI impI)
    show "unat (cD (align_cell e n s)) \<le> Suc n"
      using cDn by (simp add: align_cell_fields)
    show "1 \<le> unat (cD (align_cell e n s))"
      using cDn by (simp add: align_cell_fields)
  next
    fix j assume j: "1 \<le> j \<and> j \<le> Suc n"
    show "trace_cell_ok (m + 1) j (rowTra (align_cell e n s) ! j)"
    proof (cases "j = n + 1")
      case True then show ?thesis using new_tra by simp
    next
      case False
      with j have "j \<le> n" by simp
      with False j old [of j] show ?thesis by (simp add: align_cell_frame)
    qed
    show "1 \<le> unat (I_ext_m1 (align_cell e n s) ! j)"
    proof (cases "j = n + 1")
      case True then show ?thesis using new_ext cIn by simp
    next
      case False
      with j have "j \<le> n" by simp
      with False j old [of j] show ?thesis by (simp add: align_cell_frame)
    qed
    show "unat (I_ext_m1 (align_cell e n s) ! j) \<le> m + 1"
    proof (cases "j = n + 1")
      case True then show ?thesis using new_ext cIn by simp
    next
      case False
      with j have "j \<le> n" by simp
      with False j old [of j] show ?thesis by (simp add: align_cell_frame)
    qed
  qed
qed


lemma align_row_inv:
  assumes N: "N = unat (subdb_len al)" "N < 2 ^ 28" and m: "m + 1 < 2 ^ 28"
    and prev: "\<forall>j \<le> N. unat (l_I_ext_m l ! j) \<le> m"
    and lens: "N < length (l_I_ext_m1 l)" "m + 1 < length (l_matTra l)"
      "N < length (l_matTra l ! (m + 1))"
  shows "(\<forall>j \<le> N. trace_cell_ok (m + 1) j (l_matTra (align_row al m l) ! (m + 1) ! j))
    \<and> (\<forall>j \<le> N. unat (l_I_ext_m (align_row al m l) ! j) \<le> m + 1)
    \<and> length (l_matTra (align_row al m l) ! (m + 1)) = length (l_matTra l ! (m + 1))"
proof -
  define e where "e = row_env_of al l m"
  define s0 where "s0 = row_start e l (m + 1)"
  define sN where "sN = fold (align_cell e) [0..<N] s0"
  have eI: "e_I_ext_m e = l_I_ext_m l"
    by (simp add: e_def row_env_of_def Let_def)
  have row: "l_matTra (align_row al m l) ! (m + 1) = rowTra sN"
    and ext: "l_I_ext_m (align_row al m l) = I_ext_m1 sN"
    using lens(2) by (simp_all add: align_row_def Let_def sN_def s0_def e_def N(1))
  have s0: "cD s0 = 0" "rowTra s0 = (l_matTra l ! (m + 1))[0 := cigar_pack (l_I_ext_m l ! 0 + 1) BAM_CINS]"
    "I_ext_m1 s0 = (l_I_ext_m1 l)[0 := l_I_ext_m l ! 0 + 1]"
    by (simp_all add: s0_def row_start_def Let_def eI)
  have lens0: "N < length (rowTra s0)" "N < length (I_ext_m1 s0)"
    using lens by (simp_all add: s0)
  from prev have p0: "unat (l_I_ext_m l ! 0) \<le> m" by simp
  with m have c0: "unat (l_I_ext_m l ! 0 + 1) = unat (l_I_ext_m l ! 0) + 1"
    by (intro unat_plus1) simp
  have z_tra: "rowTra sN ! 0 = cigar_pack (l_I_ext_m l ! 0 + 1) BAM_CINS"
    and z_ext: "I_ext_m1 sN ! 0 = l_I_ext_m l ! 0 + 1"
  proof -
    from lens have pos: "0 < length (l_matTra l ! (m + 1))" "0 < length (l_I_ext_m1 l)"
      by auto
    from pos(1) show "rowTra sN ! 0 = cigar_pack (l_I_ext_m l ! 0 + 1) BAM_CINS"
      by (simp add: sN_def align_cells_frame s0)
    from pos(2) show "I_ext_m1 sN ! 0 = l_I_ext_m l ! 0 + 1"
      by (simp add: sN_def align_cells_frame s0)
  qed
  have inv: "\<And>j. 1 \<le> j \<Longrightarrow> j \<le> N \<Longrightarrow>
          trace_cell_ok (m + 1) j (rowTra sN ! j)
        \<and> 1 \<le> unat (I_ext_m1 sN ! j) \<and> unat (I_ext_m1 sN ! j) \<le> m + 1"
    using align_cells_inv [OF N(2) m _ lens0 s0(1) order_refl, of e] prev
    unfolding sN_def eI by blast
  show ?thesis
    unfolding row ext
  proof (intro conjI allI impI)
    fix j assume j: "j \<le> N"
    show "trace_cell_ok (m + 1) j (rowTra sN ! j)"
    proof (cases "j = 0")
      case True
      have "trace_cell_ok (m + 1) 0 (cigar_pack (l_I_ext_m l ! 0 + 1) BAM_CINS)"
        using c0 p0 m by (intro cell_ok_ins) simp_all
      with True z_tra show ?thesis by simp
    next
      case False
      with j inv [of j] show ?thesis by simp
    qed
    show "unat (I_ext_m1 sN ! j) \<le> m + 1"
    proof (cases "j = 0")
      case True
      with z_ext c0 p0 show ?thesis by simp
    next
      case False
      with j inv [of j] show ?thesis by simp
    qed
  next
    show "length (rowTra sN) = length (l_matTra l ! (m + 1))"
      by (simp add: sN_def s0)
  qed
qed

lemma align_rows_inv:
  assumes N: "N = unat (subdb_len al)" "N < 2 ^ 28" and M: "M < 2 ^ 28"
    and init0: "\<forall>j \<le> N. unat (l_I_ext_m l0 ! j) \<le> 0"
    and lens: "N < length (l_I_ext_m l0)" "N < length (l_I_ext_m1 l0)"
      "M < length (l_matTra l0)" "\<forall>i. 1 \<le> i \<and> i \<le> M \<longrightarrow> N < length (l_matTra l0 ! i)"
  shows "(\<forall>j \<le> N. unat (l_I_ext_m (fold (align_row al) [0..<M] l0) ! j) \<le> M)
    \<and> N < length (l_I_ext_m (fold (align_row al) [0..<M] l0))
    \<and> N < length (l_I_ext_m1 (fold (align_row al) [0..<M] l0))
    \<and> (\<forall>i. length (l_matTra (fold (align_row al) [0..<M] l0) ! i) = length (l_matTra l0 ! i))
    \<and> l_matTra (fold (align_row al) [0..<M] l0) ! 0 = l_matTra l0 ! 0
    \<and> (\<forall>i j. 1 \<le> i \<and> i \<le> M \<and> j \<le> N \<longrightarrow>
          trace_cell_ok i j (l_matTra (fold (align_row al) [0..<M] l0) ! i ! j))"
  using M lens(3,4)
proof (induction M)
  case 0
  then show ?case using init0 lens(1,2) by simp
next
  case (Suc M)
  define l where "l = fold (align_row al) [0..<M] l0"
  have step: "fold (align_row al) [0..<Suc M] l0 = align_row al M l"
    by (simp add: l_def)
  from Suc.prems have M': "M < 2 ^ 28" "M < length (l_matTra l0)"
    "\<forall>i. 1 \<le> i \<and> i \<le> M \<longrightarrow> N < length (l_matTra l0 ! i)" by simp_all
  from Suc.IH [OF M'] have
    ext: "\<forall>j \<le> N. unat (l_I_ext_m l ! j) \<le> M" and
    l1: "N < length (l_I_ext_m l)" "N < length (l_I_ext_m1 l)" and
    rl: "\<And>i. length (l_matTra l ! i) = length (l_matTra l0 ! i)" and
    r0: "l_matTra l ! 0 = l_matTra l0 ! 0" and
    ok: "\<And>i j. 1 \<le> i \<Longrightarrow> i \<le> M \<Longrightarrow> j \<le> N \<Longrightarrow> trace_cell_ok i j (l_matTra l ! i ! j)"
    unfolding l_def by blast+
  have ml: "M + 1 < length (l_matTra l)" using Suc.prems by (simp add: l_def)
  have rowlen: "N < length (l_matTra l ! (M + 1))"
    using Suc.prems(3) rl [of "M + 1"] by simp
  from Suc.prems have m: "M + 1 < 2 ^ 28" by simp
  note R = align_row_inv [OF N m ext l1(2) ml rowlen]
  show ?case
    unfolding step
  proof (intro conjI allI impI)
    fix j assume "j \<le> N"
    with R show "unat (l_I_ext_m (align_row al M l) ! j) \<le> Suc M" by simp
  next
    show "N < length (l_I_ext_m (align_row al M l))" "N < length (l_I_ext_m1 (align_row al M l))"
      using l1 by (simp_all add: align_row_lens)
  next
    fix i
    show "length (l_matTra (align_row al M l) ! i) = length (l_matTra l0 ! i)"
    proof (cases "i = M + 1")
      case True
      with R rl [of i] show ?thesis by simp
    next
      case False
      with rl [of i] show ?thesis by (simp add: align_row_matTra_frame)
    qed
  next
    show "l_matTra (align_row al M l) ! 0 = l_matTra l0 ! 0"
      using r0 by (simp add: align_row_matTra_frame)
  next
    fix i j assume ij: "1 \<le> i \<and> i \<le> Suc M \<and> j \<le> N"
    show "trace_cell_ok i j (l_matTra (align_row al M l) ! i ! j)"
    proof (cases "i = M + 1")
      case True
      with R ij show ?thesis by simp
    next
      case False
      with ij have "i \<le> M" by simp
      with False ij ok [of i j] show ?thesis by (simp add: align_row_matTra_frame)
    qed
  qed
qed

lemma asw_align_init_props:
  assumes "asw_align_init al = Inr al1 \<or> asw_align_init_semi al = Inr al1"
  shows "init_in_bounds al"
    and "subdb_len al1 = subdb_len al" and "subquery_len al1 = subquery_len al"
    and "query_len al1 = query_len al" and "subquery al1 = subquery al"
    and "I_ext_m1_act al1 = I_ext_m1_act al"
    and "length (I_ext_m_act al1) = length (I_ext_m_act al)"
    and "\<forall>j \<le> unat (subdb_len al). I_ext_m_act al1 ! j = 0"
    and "length (matTra al1) = length (matTra al)"
    and "\<forall>i. length (matTra al1 ! i) = length (matTra al ! i)"
proof -
  from assms show inb: "init_in_bounds al"
    by (auto simp: asw_align_init_def asw_align_init_semi_def split: if_splits)
  define N where "N = unat (subdb_len al)"
  from inb have lens: "N < length (vecPen_m_act al)" "N < length (vecIns_m_act al)"
    "N < length (I_ext_m_act al)" "0 < length (matTra al)" "N < length (matTra al ! 0)"
    by (simp_all add: init_in_bounds_def N_def)
  from assms obtain s :: init_state where
    al1: "al1 = al\<lparr>vecPen_m_act := i_vecPen_m s, vecIns_m_act := i_vecIns_m s,
                    I_ext_m_act := i_I_ext_m s, matTra := (matTra al)[0 := i_rowTra s]\<rparr>"
    and s: "length (i_I_ext_m s) = length (I_ext_m_act al)"
           "length (i_rowTra s) = length (matTra al ! 0)"
           "\<forall>j \<le> N. i_I_ext_m s ! j = 0"
  proof
    assume g: "asw_align_init al = Inr al1"
    define g0 where "g0 = int32 (pen_at (gopen_penalty al) (phred_offset al) (qual al ! subqual al)
                      - pen_at (gext_penalty al) (phred_offset al) (qual al ! subqual al))"
    define s0 where "s0 =
      \<lparr>i_storedDel_score =
         int32 ((vecPen_m_act al)[0 := 0] ! 0 + int32 (GAP_OPEN_EXTEND al - GAP_EXTEND al)),
       i_vecPen_m = (vecPen_m_act al)[0 := 0],
       i_vecIns_m = (vecIns_m_act al)[0 := int32 ((vecPen_m_act al)[0 := 0] ! 0 + g0)],
       i_rowTra = (matTra al ! 0)[0 := cigar_pack 0 BAM_CSEQ_MATCH],
       i_I_ext_m = (I_ext_m_act al)[0 := 0]\<rparr>"
    define s where "s = fold (init_step (GAP_EXTEND al) g0) [0..<N] s0"
    have l0: "N < length (i_vecPen_m s0)" "N < length (i_vecIns_m s0)"
      "N < length (i_rowTra s0)" "N < length (i_I_ext_m s0)"
      using lens by (simp_all add: s0_def)
    note F = init_step_fold [OF l0, of "GAP_EXTEND al" g0, folded s_def]
    from lens(3) have "0 < length (I_ext_m_act al)" by auto
    then have z: "i_I_ext_m s0 ! 0 = 0" by (simp add: s0_def)
    have "\<forall>j \<le> N. i_I_ext_m s ! j = 0"
    proof (intro allI impI)
      fix j assume "j \<le> N"
      with F z show "i_I_ext_m s ! j = 0" by (cases "j = 0") auto
    qed
    moreover from F have "length (i_I_ext_m s) = length (I_ext_m_act al)"
      "length (i_rowTra s) = length (matTra al ! 0)" by (simp_all add: s0_def)
    moreover from g inb have "al1 = al\<lparr>vecPen_m_act := i_vecPen_m s, vecIns_m_act := i_vecIns_m s,
                    I_ext_m_act := i_I_ext_m s, matTra := (matTra al)[0 := i_rowTra s]\<rparr>"
      by (simp add: asw_align_init_def Let_def s_def s0_def g0_def N_def)
    ultimately show thesis by (intro that [of s])
  next
    assume g: "asw_align_init_semi al = Inr al1"
    define g0 where "g0 = int32 (pen_at (gopen_penalty al) (phred_offset al) (qual al ! subqual al)
                      - pen_at (gext_penalty al) (phred_offset al) (qual al ! subqual al))"
    define s0 where "s0 =
      \<lparr>i_storedDel_score = 0,
       i_vecPen_m = (vecPen_m_act al)[0 := 0],
       i_vecIns_m = (vecIns_m_act al)[0 := int32 ((vecPen_m_act al)[0 := 0] ! 0 + g0)],
       i_rowTra = (matTra al ! 0)[0 := cigar_pack 0 BAM_CSEQ_MATCH],
       i_I_ext_m = (I_ext_m_act al)[0 := 0]\<rparr>"
    define s where "s = fold (init_semi_step g0) [0..<N] s0"
    have l0: "N < length (i_vecPen_m s0)" "N < length (i_vecIns_m s0)"
      "N < length (i_rowTra s0)" "N < length (i_I_ext_m s0)"
      using lens by (simp_all add: s0_def)
    note F = init_semi_step_fold [OF l0, of g0, folded s_def]
    from lens(3) have "0 < length (I_ext_m_act al)" by auto
    then have z: "i_I_ext_m s0 ! 0 = 0" by (simp add: s0_def)
    have "\<forall>j \<le> N. i_I_ext_m s ! j = 0"
    proof (intro allI impI)
      fix j assume "j \<le> N"
      with F z show "i_I_ext_m s ! j = 0" by (cases "j = 0") auto
    qed
    moreover from F have "length (i_I_ext_m s) = length (I_ext_m_act al)"
      "length (i_rowTra s) = length (matTra al ! 0)" by (simp_all add: s0_def)
    moreover from g inb have "al1 = al\<lparr>vecPen_m_act := i_vecPen_m s, vecIns_m_act := i_vecIns_m s,
                    I_ext_m_act := i_I_ext_m s, matTra := (matTra al)[0 := i_rowTra s]\<rparr>"
      by (simp add: asw_align_init_semi_def Let_def s_def s0_def g0_def N_def)
    ultimately show thesis by (intro that [of s])
  qed
  show "subdb_len al1 = subdb_len al" "subquery_len al1 = subquery_len al"
    "query_len al1 = query_len al" "subquery al1 = subquery al"
    "I_ext_m1_act al1 = I_ext_m1_act al"
    by (simp_all add: al1)
  show "length (I_ext_m_act al1) = length (I_ext_m_act al)"
    by (simp add: al1 s)
  show "\<forall>j \<le> unat (subdb_len al). I_ext_m_act al1 ! j = 0"
    using s(3) by (simp add: al1 N_def)
  show "length (matTra al1) = length (matTra al)"
    by (simp add: al1)
  show "\<forall>i. length (matTra al1 ! i) = length (matTra al ! i)"
  proof
    fix i show "length (matTra al1 ! i) = length (matTra al ! i)"
      using lens(4) s(2) by (cases "i = 0") (simp_all add: al1)
  qed
qed

lemma aligned_matrix_ok:
  assumes init: "asw_align_init al = Inr al1 \<or> asw_align_init_semi al = Inr al1"
    and align: "asw_align al1 = Inr al2"
    and N: "unat (subdb_len al) < 2 ^ 28" and Q: "unat (subquery_len al) < 2 ^ 28"
  shows "trace_matrix_ok (matTra al2) (unat (subquery_len al)) (unat (subdb_len al))"
    and "subdb_len al2 = subdb_len al" and "subquery_len al2 = subquery_len al"
    and "query_len al2 = query_len al" and "subquery al2 = subquery al"
proof -
  note I = asw_align_init_props [OF init]
  define N' where "N' = unat (subdb_len al)"
  define Q' where "Q' = unat (subquery_len al)"
  from align have inb: "align_in_bounds al1"
    by (auto simp: asw_align_def split: if_splits)
  from align show "subdb_len al2 = subdb_len al" "subquery_len al2 = subquery_len al"
    "query_len al2 = query_len al" "subquery al2 = subquery al"
    using I(2-5) by (auto simp: asw_align_def Let_def split: if_splits)
  have mat: "matTra al2 = l_matTra (fold (align_row al1) [0..<Q'] (align_locals_of al1))"
    using asw_align_matTra [OF align] I(3) by (simp add: Q'_def)
  from I(1) have row0: "0 < length (matTra al)" "N' < length (matTra al ! 0)"
    by (simp_all add: init_in_bounds_def N'_def)
  show "trace_matrix_ok (matTra al2) (unat (subquery_len al)) (unat (subdb_len al))"
  proof (cases "Q' = 0")
    case True
    then show ?thesis
      using row0 I(9,10)
      by (simp add: trace_matrix_ok_def mat Q'_def [symmetric] N'_def [symmetric]
            align_locals_of_def)
  next
    case False
    then have nz: "subquery_len al1 \<noteq> 0" using I(3) by (auto simp: Q'_def)
    note L = align_in_bounds_rows [OF inb nz]
    have rows: "\<forall>i. 1 \<le> i \<and> i \<le> Q' \<longrightarrow> N' < length (l_matTra (align_locals_of al1) ! i)"
      using align_in_bounds_matTra [OF inb] I(2,3)
      by (simp add: align_locals_of_def Q'_def N'_def)
    have R: "(\<forall>i. length (l_matTra (fold (align_row al1) [0..<Q'] (align_locals_of al1)) ! i)
                  = length (l_matTra (align_locals_of al1) ! i))
      \<and> (\<forall>i j. 1 \<le> i \<and> i \<le> Q' \<and> j \<le> N' \<longrightarrow>
            trace_cell_ok i j (l_matTra (fold (align_row al1) [0..<Q'] (align_locals_of al1)) ! i ! j))"
      using align_rows_inv [of N' al1 Q' "align_locals_of al1"] N Q I(2,3,8) L rows
      by (simp add: N'_def Q'_def align_locals_of_def)
    show ?thesis
      unfolding trace_matrix_ok_def mat Q'_def [symmetric] N'_def [symmetric]
    proof (intro conjI allI impI)
      show "Q' < length (l_matTra (fold (align_row al1) [0..<Q'] (align_locals_of al1)))"
        using L(7) I(3) by (simp add: align_locals_of_def Q'_def)
    next
      fix i assume "i \<le> Q'"
      then show "N' < length (l_matTra (fold (align_row al1) [0..<Q'] (align_locals_of al1)) ! i)"
        using R rows row0(2) I(10) by (cases "i = 0") (simp_all add: align_locals_of_def)
    next
      fix i j assume "1 \<le> i \<and> i \<le> Q' \<and> j \<le> N'"
      with R show "trace_cell_ok i j
          (l_matTra (fold (align_row al1) [0..<Q'] (align_locals_of al1)) ! i ! j)" by blast
    qed
  qed
qed

section \<open>The traceback\<close>

lemma trace_matrix_okD:
  assumes "trace_matrix_ok mat Q N" "0 \<le> m1" "m1 \<le> int Q" "0 \<le> n1" "n1 \<le> int N"
  shows "tra_in_bounds mat m1 n1"
    and "1 \<le> m1 \<Longrightarrow> trace_cell_ok (nat m1) (nat n1) (tra_at mat m1 n1)"
proof -
  from assms have a: "nat m1 \<le> Q" "nat n1 \<le> N" by simp_all
  with assms(1) have "Q < length mat" "N < length (mat ! nat m1)"
    by (auto simp: trace_matrix_ok_def)
  with a assms(2,4) show "tra_in_bounds mat m1 n1"
    by (simp add: tra_in_bounds_def)
  assume "1 \<le> m1"
  then have "1 \<le> nat m1" by simp
  with a assms(1) show "trace_cell_ok (nat m1) (nat n1) (tra_at mat m1 n1)"
    unfolding trace_matrix_ok_def tra_at_def by blast
qed

lemma op_distinct:
  "BAM_CINS \<noteq> BAM_CSEQ_MATCH" "BAM_CINS \<noteq> BAM_CSEQ_MISMATCH" "BAM_CINS \<noteq> BAM_CDEL"
  "BAM_CDEL \<noteq> BAM_CSEQ_MATCH" "BAM_CDEL \<noteq> BAM_CSEQ_MISMATCH" "BAM_CDEL \<noteq> BAM_CINS"
  "BAM_CSEQ_MATCH \<noteq> BAM_CSEQ_MISMATCH" "BAM_CSEQ_MISMATCH \<noteq> BAM_CSEQ_MATCH"
  "BAM_CSEQ_MATCH \<noteq> BAM_CINS" "BAM_CSEQ_MATCH \<noteq> BAM_CDEL"
  "BAM_CSEQ_MISMATCH \<noteq> BAM_CINS" "BAM_CSEQ_MISMATCH \<noteq> BAM_CDEL"
  by (simp_all add: bam_defs)

lemma uint_unat: "uint (z :: 32 word) = int (unat z)"
  by simp

lemma match_run_ok:
  assumes mat: "trace_matrix_ok mat Q N"
    and st: "st = BAM_CSEQ_MATCH \<or> st = BAM_CSEQ_MISMATCH"
    and pos: "1 \<le> m1" "m1 \<le> int Q" "0 \<le> n1" "n1 \<le> int N"
    and cig: "cigar = tra_at mat m1 n1" "cigar_op cigar = st"
  shows "\<exists>m1' n1'. match_run mat st (num, m1, n1, cigar)
            = Some (Inr (num + word_of_int (m1 - m1'), m1', n1', tra_at mat m1' n1'))
          \<and> 0 \<le> m1' \<and> m1' < m1 \<and> 0 \<le> n1' \<and> n1' \<le> n1"
  using pos cig
proof (induction "nat m1" arbitrary: m1 n1 num cigar rule: less_induct)
  case less
  note ok = trace_matrix_okD(2) [OF mat _ less.prems(2,3,4)]
  from less.prems have cell: "trace_cell_ok (nat m1) (nat n1) cigar"
    using ok by simp
  define z where "z = cigar_len cigar"
  from cell less.prems(6) st have z: "1 \<le> unat z" "unat z \<le> nat m1" "unat z \<le> nat n1"
    by (auto simp: trace_cell_ok_def z_def op_distinct)
  define m1' where "m1' = m1 - uint z"
  define n1' where "n1' = n1 - uint z"
  have uz: "uint z = int (unat z)" by (rule uint_unat)
  from z less.prems have zi: "1 \<le> uint z" "uint z \<le> m1" "uint z \<le> n1"
    unfolding uz by linarith+
  from zi less.prems have b: "0 \<le> m1'" "m1' < m1" "0 \<le> n1'" "n1' \<le> n1" "m1' \<le> int Q" "n1' \<le> int N"
    unfolding m1'_def n1'_def by linarith+
  note inb = trace_matrix_okD(1) [OF mat b(1) b(5) b(3) b(6)]
  show ?case
  proof (cases "cigar_op (tra_at mat m1' n1') = st \<and> m1' > 0")
    case True
    have rec: "match_run mat st (num, m1, n1, cigar)
        = match_run mat st (num + z, m1', n1', tra_at mat m1' n1')"
      using True inb
      by (subst match_run.simps) (simp add: Let_def z_def m1'_def n1'_def)
    from True b have lt: "nat m1' < nat m1" and p: "1 \<le> m1'" by simp_all
    from less.hyps [OF lt p b(5) b(3) b(6) refl, of "num + z"] True
    obtain m1'' n1'' where
      r: "match_run mat st (num + z, m1', n1', tra_at mat m1' n1')
            = Some (Inr (num + z + word_of_int (m1' - m1''), m1'', n1'', tra_at mat m1'' n1''))"
      and c: "0 \<le> m1''" "m1'' < m1'" "0 \<le> n1''" "n1'' \<le> n1'"
      by blast
    have "z = word_of_int (m1 - m1')" by (simp add: m1'_def)
    then have "num + z + word_of_int (m1' - m1'') = num + word_of_int (m1 - m1'')"
      by simp
    with rec r c b show ?thesis by auto
  next
    case False
    have "match_run mat st (num, m1, n1, cigar)
        = Some (Inr (num + z, m1', n1', tra_at mat m1' n1'))"
      using False inb
      by (subst match_run.simps) (auto simp: Let_def z_def m1'_def n1'_def)
    moreover have "z = word_of_int (m1 - m1')" by (simp add: m1'_def)
    ultimately show ?thesis using b by auto
  qed
qed


lemma cells_empty [simp]: "cells buf lo lo = []"
  by (simp add: cells_def)

lemma cells_snoc:
  assumes "- 1 \<le> lo" "lo < hi"
  shows "cells buf lo hi = cells buf lo (hi - 1) @ [buf ! nat hi]"
proof -
  from assms have "nat (hi + 1) = Suc (nat hi)" "nat (hi - 1 + 1) = nat hi"
    "nat (lo + 1) \<le> nat hi" by simp_all
  then show ?thesis by (simp add: cells_def)
qed


lemma query_consumed_snoc:
  "query_consumed (cs @ [c])
     = query_consumed cs + (if consumes_query (cigar_op c) then unat (cigar_len c) else 0)"
  by (simp add: query_consumed_def)

lemma trace_step:
  assumes post: "trace_post s1 s'"
    and rc: "0 \<le> t_rc s" "- 1 \<le> t_rc s" "nat (t_rc s) < length (t_rcigar s)"
    and s1: "t_rc s1 = t_rc s - 1" "t_rcigar s1 = (t_rcigar s)[nat (t_rc s) := c]"
      "t_n1 s1 \<le> t_n1 s"
    and sum: "nat (t_m1 s1) + (if consumes_query (cigar_op c) then unat (cigar_len c) else 0)
                = nat (t_m1 s)"
  shows "trace_post s s'"
proof -
  from post have p: "t_m1 s' = 0" "0 \<le> t_n1 s'" "t_n1 s' \<le> t_n1 s1"
    "length (t_rcigar s') = length (t_rcigar s1)" "- 1 \<le> t_rc s'" "t_rc s' \<le> t_rc s1"
    "\<And>k. t_rc s1 < int k \<Longrightarrow> t_rcigar s' ! k = t_rcigar s1 ! k"
    "query_consumed (cells (t_rcigar s') (t_rc s') (t_rc s1)) = nat (t_m1 s1)"
    by (simp_all add: trace_post_def)
  have top: "t_rcigar s' ! nat (t_rc s) = c"
    using p(7) [of "nat (t_rc s)"] rc s1 by simp
  have frame: "t_rcigar s' ! k = t_rcigar s ! k" if "t_rc s < int k" for k
    using p(7) [of k] that rc s1 by simp
  have "cells (t_rcigar s') (t_rc s') (t_rc s)
      = cells (t_rcigar s') (t_rc s') (t_rc s - 1) @ [t_rcigar s' ! nat (t_rc s)]"
    using p(5,6) s1(1) by (intro cells_snoc) simp_all
  then have "query_consumed (cells (t_rcigar s') (t_rc s') (t_rc s)) = nat (t_m1 s)"
    using p(8) sum by (simp add: query_consumed_snoc top s1(1))
  with p s1 frame show ?thesis
    by (simp add: trace_post_def)
qed

lemma unat_word_of_int_small:
  "0 \<le> k \<Longrightarrow> k < 2 ^ 28 \<Longrightarrow> unat (word_of_int k :: 32 word) = nat k"
proof -
  assume a: "0 \<le> k" "k < 2 ^ 28"
  then have "uint (word_of_int k :: 32 word) = k"
    by (simp add: uint_word_of_int take_bit_int_eq_self)
  then show ?thesis by (simp add: unat_eq_nat_uint)
qed

lemma store_rc_fields [simp]:
  "t_m1 (store_rc c s) = t_m1 s" "t_n1 (store_rc c s) = t_n1 s"
  "t_cigar (store_rc c s) = t_cigar s" "t_rc (store_rc c s) = t_rc s - 1"
  by (simp_all add: store_rc_def)

lemma store_rc_over: "t_over s \<Longrightarrow> t_over (store_rc c s)"
  by (simp add: store_rc_def)

lemma store_rc_in_bounds:
  assumes "\<not> t_over (store_rc c s)"
  shows "0 \<le> t_rc s" "nat (t_rc s) < length (t_rcigar s)"
    "t_rcigar (store_rc c s) = (t_rcigar s)[nat (t_rc s) := c]"
  using assms by (auto simp: store_rc_def rc_in_bounds_def split: if_splits)

lemma trace_loop_ok:
  assumes mat: "trace_matrix_ok mat Q N" and Q: "Q < 2 ^ 28"
    and s: "0 \<le> t_m1 s" "t_m1 s \<le> int Q" "0 \<le> t_n1 s" "t_n1 s \<le> int N"
      "t_cigar s = tra_at mat (t_m1 s) (t_n1 s)"
  shows "\<exists>s'. trace_loop mat s = Some (Inr s')
           \<and> t_m1 s' = 0 \<and> 0 \<le> t_n1 s' \<and> t_n1 s' \<le> t_n1 s
           \<and> (t_over s \<longrightarrow> t_over s')
           \<and> (- 1 \<le> t_rc s \<and> \<not> t_over s' \<longrightarrow> trace_post s s')"
  using s
proof (induction "nat (t_m1 s + t_n1 s)" arbitrary: s rule: less_induct)
  case less
  show ?case
  proof (cases "t_m1 s > 0")
    case False
    with less.prems have z: "t_m1 s = 0" by simp
    from False have r: "trace_loop mat s = Some (Inr s)"
      by (subst trace_loop.simps) simp
    have "trace_post s s" if "- 1 \<le> t_rc s"
      using that z less.prems by (simp add: trace_post_def query_consumed_def)
    with z less.prems show ?thesis unfolding r by simp
  next
    case pos: True
    then have m1: "1 \<le> t_m1 s" by simp
    note cell = trace_matrix_okD(2) [OF mat less.prems(1-4) m1, folded less.prems(5)]
    define z where "z = cigar_len (t_cigar s)"
    have uz: "uint z = int (unat z)" by (rule uint_unat)
    have finish: ?thesis
      if step: "trace_loop mat s = trace_loop mat s1"
        and f: "t_m1 s1 = a" "t_n1 s1 = b" "t_cigar s1 = tra_at mat a b" "t_rc s1 = t_rc s - 1"
          "t_rcigar s1 = t_rcigar (store_rc c s)" "t_over s1 = t_over (store_rc c s)"
        and b: "0 \<le> a" "a \<le> t_m1 s" "0 \<le> b" "b \<le> t_n1 s" "a + b < t_m1 s + t_n1 s"
        and sum: "nat a + (if consumes_query (cigar_op c) then unat (cigar_len c) else 0)
                = nat (t_m1 s)"
      for s1 a b c
    proof -
      from b less.prems have "nat (t_m1 s1 + t_n1 s1) < nat (t_m1 s + t_n1 s)"
        "0 \<le> t_m1 s1" "t_m1 s1 \<le> int Q" "0 \<le> t_n1 s1" "t_n1 s1 \<le> int N"
        "t_cigar s1 = tra_at mat (t_m1 s1) (t_n1 s1)"
        by (simp_all add: f)
      from less.hyps [OF this] obtain s' where
        r: "trace_loop mat s1 = Some (Inr s')"
        and p: "t_m1 s' = 0" "0 \<le> t_n1 s'" "t_n1 s' \<le> t_n1 s1"
        and o: "t_over s1 \<longrightarrow> t_over s'"
        and q: "- 1 \<le> t_rc s1 \<and> \<not> t_over s' \<longrightarrow> trace_post s1 s'"
        by blast
      have over: "t_over s \<longrightarrow> t_over s'"
        using o store_rc_over [of s c] by (simp add: f)
      have post: "trace_post s s'" if "- 1 \<le> t_rc s" "\<not> t_over s'"
      proof -
        from that(2) o have n: "\<not> t_over (store_rc c s)" by (auto simp: f)
        note w = store_rc_in_bounds [OF n]
        from w(1) q that(2) have p1: "trace_post s1 s'" by (simp add: f)
        have u: "t_rcigar s1 = (t_rcigar s)[nat (t_rc s) := c]" by (simp add: f w(3))
        have le: "t_n1 s1 \<le> t_n1 s" using b by (simp add: f)
        have sm: "nat (t_m1 s1) + (if consumes_query (cigar_op c) then unat (cigar_len c) else 0)
                = nat (t_m1 s)" using sum by (simp add: f)
        from trace_step [OF p1 w(1) that(1) w(2) f(4) u le sm] show ?thesis .
      qed
      from p b have "t_n1 s' \<le> t_n1 s" by (simp add: f)
      with r p over post show ?thesis unfolding step by blast
    qed
    from cell have ops: "cigar_op (t_cigar s) = BAM_CINS \<or> cigar_op (t_cigar s) = BAM_CDEL
        \<or> cigar_op (t_cigar s) = BAM_CSEQ_MATCH \<or> cigar_op (t_cigar s) = BAM_CSEQ_MISMATCH"
      by (auto simp: trace_cell_ok_def)
    show ?thesis
    proof (cases "cigar_op (t_cigar s) = BAM_CSEQ_MATCH \<or> cigar_op (t_cigar s) = BAM_CSEQ_MISMATCH")
      case st: True
      define st where "st = cigar_op (t_cigar s)"
      from st have st': "st = BAM_CSEQ_MATCH \<or> st = BAM_CSEQ_MISMATCH" by (simp add: st_def)
      from match_run_ok [OF mat st' m1 less.prems(2,3,4,5), of 0] obtain m1' n1' where
        mr: "match_run mat st (0, t_m1 s, t_n1 s, t_cigar s)
               = Some (Inr (0 + word_of_int (t_m1 s - m1'), m1', n1', tra_at mat m1' n1'))"
        and b: "0 \<le> m1'" "m1' < t_m1 s" "0 \<le> n1'" "n1' \<le> t_n1 s"
        by (auto simp: st_def)
      define num :: "32 word" where "num = word_of_int (t_m1 s - m1')"
      define s1 where "s1 = (store_rc (cigar_pack num st) s)
          \<lparr>t_m1 := m1', t_n1 := n1', t_cigar := tra_at mat m1' n1'\<rparr>"
      have step: "trace_loop mat s = trace_loop mat s1"
        using pos st mr
        by (subst trace_loop.simps) (simp add: Let_def st_def [symmetric] s1_def num_def)
      from b less.prems Q have d: "0 \<le> t_m1 s - m1'" "t_m1 s - m1' < 2 ^ 28" by simp_all
      then have un: "unat num = nat (t_m1 s - m1')"
        unfolding num_def by (rule unat_word_of_int_small)
      with d have "num < 2 ^ 28" by (simp add: word_less_nat_alt)
      moreover from st' have "st \<le> 15" by (auto simp: bam_defs)
      ultimately have pk: "cigar_len (cigar_pack num st) = num" "cigar_op (cigar_pack num st) = st"
        by (simp_all add: cigar_len_pack cigar_op_pack)
      from st' have cq: "consumes_query st" by (auto simp: consumes_query_def)
      show ?thesis
      proof (rule finish [OF step, of m1' n1' "cigar_pack num st"])
        show "nat m1' + (if consumes_query (cigar_op (cigar_pack num st))
                then unat (cigar_len (cigar_pack num st)) else 0) = nat (t_m1 s)"
          using b un cq by (simp add: pk)
      qed (use b in \<open>simp_all add: s1_def\<close>)
    next
      case nst: False
      show ?thesis
      proof (cases "cigar_op (t_cigar s) = BAM_CDEL")
        case del: True
        from cell del have z: "1 \<le> unat z" "unat z \<le> nat (t_n1 s)"
          by (auto simp: trace_cell_ok_def z_def op_distinct)
        with less.prems have zi: "1 \<le> uint z" "uint z \<le> t_n1 s"
          unfolding uz by linarith+
        define s1 where "s1 = (store_rc (t_cigar s) s)
            \<lparr>t_n1 := t_n1 s - uint z, t_cigar := tra_at mat (t_m1 s) (t_n1 s - uint z)\<rparr>"
        from zi less.prems have nb: "0 \<le> t_n1 s - uint z" "t_n1 s - uint z \<le> int N" by simp_all
        note inb = trace_matrix_okD(1) [OF mat less.prems(1,2) nb]
        have step: "trace_loop mat s = trace_loop mat s1"
          using pos del inb
          by (subst trace_loop.simps) (simp add: Let_def s1_def z_def op_distinct)
        from del have ncq: "\<not> consumes_query (cigar_op (t_cigar s))"
          by (simp add: consumes_query_def bam_defs)
        show ?thesis
          by (rule finish [OF step, of "t_m1 s" "t_n1 s - uint z" "t_cigar s"])
             (use zi less.prems(1-4) ncq in \<open>simp_all add: s1_def\<close>)
      next
        case False
        with nst ops have ins: "cigar_op (t_cigar s) = BAM_CINS" by blast
        from cell ins have z: "1 \<le> unat z" "unat z \<le> nat (t_m1 s)"
          by (auto simp: trace_cell_ok_def z_def op_distinct)
        with less.prems have zi: "1 \<le> uint z" "uint z \<le> t_m1 s"
          unfolding uz by linarith+
        define s1 where "s1 = (store_rc (t_cigar s) s)
            \<lparr>t_m1 := t_m1 s - uint z, t_cigar := tra_at mat (t_m1 s - uint z) (t_n1 s)\<rparr>"
        from zi less.prems have nb: "0 \<le> t_m1 s - uint z" "t_m1 s - uint z \<le> int Q" by simp_all
        note inb = trace_matrix_okD(1) [OF mat nb less.prems(3,4)]
        have step: "trace_loop mat s = trace_loop mat s1"
          using pos ins inb
          by (subst trace_loop.simps) (simp add: Let_def s1_def z_def op_distinct)
        from ins have cq: "consumes_query (cigar_op (t_cigar s))"
          by (simp add: consumes_query_def)
        have "nat (t_m1 s - uint z) + unat z = nat (t_m1 s)"
          using zi unfolding uz by linarith
        then have sum: "nat (t_m1 s - uint z) + unat (cigar_len (t_cigar s)) = nat (t_m1 s)"
          by (simp add: z_def)
        show ?thesis
          by (rule finish [OF step, of "t_m1 s - uint z" "t_n1 s" "t_cigar s"])
             (use zi less.prems(1-4) cq sum in \<open>simp_all add: s1_def\<close>)
      qed
    qed
  qed
qed

lemma sint_ucast_small:
  fixes x :: size_t
  assumes "unat x < 2 ^ 28"
  shows "sint (ucast x :: 32 word) = int (unat x)"
proof -
  from assms have "x < 2 ^ 28" by (simp add: word_less_nat_alt)
  then have "uint x < uint (2 ^ 28 :: size_t)" by (simp only: word_less_def)
  then have a: "uint x < 2 ^ 28" "0 \<le> uint x"
    by simp_all
  have "- (2 ^ 31) \<le> uint x" by (rule order_trans [OF _ uint_ge_0]) simp
  with a have "uint x < 2 ^ 32" "uint x < 2 ^ 31" "- (2 ^ 31) \<le> uint x" by simp_all
  then have "sint (ucast x :: 32 word) = uint x"
    by (simp add: sint_uint unsigned_ucast_eq take_bit_int_eq_self signed_take_bit_int_eq_self)
  then show ?thesis by simp
qed

lemma unat_size_of_nat: "n < 2 ^ 28 \<Longrightarrow> unat (word_of_nat n :: size_t) = n"
  by (simp add: unat_of_nat)

lemma unat_word_of_int_64: "0 \<le> k \<Longrightarrow> k < 2 ^ 28 \<Longrightarrow> unat (word_of_int k :: size_t) = nat k"
proof -
  assume a: "0 \<le> k" "k < 2 ^ 28"
  then have "k < 2 ^ 64" by simp
  with a have "uint (word_of_int k :: size_t) = k"
    by (simp add: uint_word_of_int take_bit_int_eq_self)
  then show ?thesis by (simp add: unat_eq_nat_uint)
qed

lemma rcigar_size:
  fixes x :: size_t
  assumes "unat x < 2 ^ 28"
  shows "unat (4 * (x + 4)) div 4 = unat x + 4"
  using assms by (simp add: unat_word_ariths)

lemma length_realloc_cells [simp]: "length (realloc_cells xs k) = k"
  by (simp add: realloc_cells_def)



lemma asw_trace_ok:
  assumes mat: "trace_matrix_ok (matTra al) Q N"
    and Q: "unat (subquery_len al) = Q" "Q < 2 ^ 28"
    and N: "unat (opt_score_col al) = C" "C \<le> N" "N < 2 ^ 28"
    and ok: "alloc_ok (4 * (subquery_len al + 4))"
  shows "asw_trace alloc_ok al = Some (Inl CigarOverflow)
     \<or> (\<exists>buf b n. asw_trace alloc_ok al
            = Some (Inr (al\<lparr>rcigar := buf, offset := word_of_int n, cigar_begin := b,
                            cigar_end := int Q + 2\<rparr>))
          \<and> length buf = Q + 4 \<and> 0 \<le> b \<and> b \<le> int Q + 2
          \<and> 0 \<le> n \<and> n \<le> int C
          \<and> query_consumed (cells buf (b - 1) (int Q + 1)) = Q)"
proof -
  define buf0 where "buf0 = realloc_cells (rcigar al) (unat (4 * (subquery_len al + 4)) div 4)"
  define m1 where "m1 = sint (ucast (subquery_len al) :: 32 word)"
  define n1 where "n1 = sint (ucast (opt_score_col al) :: 32 word)"
  define s where "s = \<lparr>t_m1 = m1, t_n1 = n1, t_cigar = tra_at (matTra al) m1 n1,
      t_rc = int (unat (subquery_len al)) + 1, t_rcigar = buf0, t_over = False\<rparr>"
  have m1: "m1 = int Q" unfolding m1_def using Q by (simp add: sint_ucast_small)
  from N have "unat (opt_score_col al) < 2 ^ 28" by simp
  then have "n1 = int (unat (opt_score_col al))" unfolding n1_def by (rule sint_ucast_small)
  then have n1: "n1 = int C" unfolding N(1) .
  have "unat (4 * (subquery_len al + 4)) div 4 = unat (subquery_len al) + 4"
    by (rule rcigar_size) (use Q in simp)
  then have len0: "length buf0 = Q + 4"
    unfolding buf0_def length_realloc_cells Q(1) .
  have uq: "uint (subquery_len al) = int Q" using Q(1) by auto
  have b: "0 \<le> m1" "m1 \<le> int Q" "0 \<le> n1" "n1 \<le> int N" using m1 n1 N by simp_all
  note inb = trace_matrix_okD(1) [OF mat b]
  have tr: "asw_trace alloc_ok al
      = Option.bind (trace_loop (matTra al) s)
          (\<lambda>r. case r of Inl e \<Rightarrow> Some (Inl e)
             | Inr s' \<Rightarrow>
                 if t_over s' then Some (Inl CigarOverflow)
                 else Some (Inr (al\<lparr>rcigar := t_rcigar s', offset := word_of_int (t_n1 s'),
                                  cigar_begin := t_rc s' + 1,
                                  cigar_end := int (unat (subquery_len al)) + 2\<rparr>)))"
    unfolding asw_trace_def Let_def s_def buf0_def m1_def n1_def
    by (simp only: ok inb [unfolded m1_def n1_def] not_True_eq_False if_False)
  have "\<exists>s'. trace_loop (matTra al) s = Some (Inr s')
           \<and> t_m1 s' = 0 \<and> 0 \<le> t_n1 s' \<and> t_n1 s' \<le> t_n1 s
           \<and> (t_over s \<longrightarrow> t_over s')
           \<and> (- 1 \<le> t_rc s \<and> \<not> t_over s' \<longrightarrow> trace_post s s')"
    by (rule trace_loop_ok [OF mat Q(2)]) (use b in \<open>simp_all add: s_def\<close>)
  then obtain s' where r: "trace_loop (matTra al) s = Some (Inr s')"
    and p0: "- 1 \<le> t_rc s \<and> \<not> t_over s' \<longrightarrow> trace_post s s'"
    by blast
  show ?thesis
  proof (cases "t_over s'")
    case True
    with tr r show ?thesis by simp
  next
    case False
    with p0 have p: "trace_post s s'" by (simp add: s_def)
    from p have q: "0 \<le> t_n1 s'" "t_n1 s' \<le> n1" "length (t_rcigar s') = Q + 4"
      "- 1 \<le> t_rc s'" "t_rc s' \<le> int Q + 1"
      "query_consumed (cells (t_rcigar s') (t_rc s') (int Q + 1)) = Q"
      using len0 Q(1) m1 by (simp_all add: trace_post_def s_def)
    have eq: "asw_trace alloc_ok al
        = Some (Inr (al\<lparr>rcigar := t_rcigar s', offset := word_of_int (t_n1 s'),
                        cigar_begin := t_rc s' + 1, cigar_end := int Q + 2\<rparr>))"
      using tr r False by (simp add: Q(1))
    have c: "query_consumed (cells (t_rcigar s') (t_rc s' + 1 - 1) (int Q + 1)) = Q"
      using q(6) by simp
    have d: "0 \<le> t_rc s' + 1" "t_rc s' + 1 \<le> int Q + 2" "t_n1 s' \<le> int C"
      using q n1 by simp_all
    show ?thesis
      by (intro disjI2 exI [of _ "t_rcigar s'"] exI [of _ "t_rc s' + 1"] exI [of _ "t_n1 s'"]
            conjI)
         (fact eq q(3) q(1) c d)+
  qed
qed

text \<open>
  Claim C10. Let \<open>al2\<close> be the engine after \<^verbatim>\<open>asw_align_init\<close> or
  \<^verbatim>\<open>asw_align_init_semi\<close> followed by \<^verbatim>\<open>asw_align\<close>, on sub-views of \<open>Q\<close> query and \<open>N\<close>
  reference characters, both below \<open>2 ^ 28\<close>: a run length has 28 bits, and a run of
  \<open>2 ^ 28\<close> packs to run length 0, on which the loop does not advance (see the reference of
  \<open>2 ^ 28 + 1\<close> characters below). Every cell of the trace matrix below row 0 has a run
  length of at least 1 and moves inside the matrix: an insertion up by at most its row, a
  deletion left by at most its column, a match or mismatch diagonally by at most both; so
  each step of the loop decreases the row, or keeps the row and decreases the column.
  From row \<open>Q\<close> and any column \<open>opt_col \<le> N\<close> the traceback loop ends, whatever the buffer
  it writes to: it returns in row 0 at a column between 0 and \<open>opt_col\<close>, without an access
  outside the matrix and without an unknown operation. \<^verbatim>\<open>asw_trace\<close> returns as well:
  with the engine, whose offset is at most \<open>opt_col\<close>, or with the report that the
  allocation failed or that the loop has stored outside \<^verbatim>\<open>rcigar\<close>.
\<close>

theorem trace_loop_terminates:
  assumes init: "asw_align_init al = Inr al1 \<or> asw_align_init_semi al = Inr al1"
    and align: "asw_align al1 = Inr al2"
    and Q: "unat (subquery_len al) = Q" "Q < 2 ^ 28"
    and N: "unat (subdb_len al) = N" "N < 2 ^ 28"
    and col: "opt_col \<le> N"
  shows "trace_matrix_ok (matTra al2) Q N
    \<and> (\<exists>s'. trace_loop (matTra al2)
                \<lparr>t_m1 = int Q, t_n1 = int opt_col,
                 t_cigar = tra_at (matTra al2) (int Q) (int opt_col),
                 t_rc = rc, t_rcigar = buf, t_over = over\<rparr>
                = Some (Inr s')
            \<and> t_m1 s' = 0 \<and> 0 \<le> t_n1 s' \<and> t_n1 s' \<le> int opt_col)
    \<and> (\<exists>r. asw_trace alloc_ok (al2\<lparr>opt_score_col := word_of_nat opt_col\<rparr>) = Some r
            \<and> (r = Inl AllocError \<or> r = Inl CigarOverflow
                \<or> (\<exists>al3. r = Inr al3 \<and> unat (offset al3) \<le> opt_col)))"
proof -
  note A = aligned_matrix_ok [OF init align, unfolded Q(1) N(1), OF N(2) Q(2)]
  define s where "s = \<lparr>t_m1 = int Q, t_n1 = int opt_col,
           t_cigar = tra_at (matTra al2) (int Q) (int opt_col),
           t_rc = rc, t_rcigar = buf, t_over = over\<rparr>"
  have "\<exists>s'. trace_loop (matTra al2) s = Some (Inr s')
           \<and> t_m1 s' = 0 \<and> 0 \<le> t_n1 s' \<and> t_n1 s' \<le> t_n1 s
           \<and> (t_over s \<longrightarrow> t_over s')
           \<and> (- 1 \<le> t_rc s \<and> \<not> t_over s' \<longrightarrow> trace_post s s')"
    by (rule trace_loop_ok [OF A(1) Q(2)]) (use col in \<open>simp_all add: s_def\<close>)
  then have loop: "\<exists>s'. trace_loop (matTra al2) s = Some (Inr s')
             \<and> t_m1 s' = 0 \<and> 0 \<le> t_n1 s' \<and> t_n1 s' \<le> int opt_col"
    by (auto simp: s_def)
  define al3 where "al3 = al2\<lparr>opt_score_col := word_of_nat opt_col\<rparr>"
  have m: "trace_matrix_ok (matTra al3) Q N" "unat (subquery_len al3) = Q"
    using A Q by (simp_all add: al3_def)
  from col N have c28: "opt_col < 2 ^ 28" by simp
  then have c: "unat (opt_score_col al3) = opt_col"
    by (simp add: al3_def unat_size_of_nat)
  have "\<exists>r. asw_trace alloc_ok al3 = Some r
          \<and> (r = Inl AllocError \<or> r = Inl CigarOverflow
              \<or> (\<exists>al4. r = Inr al4 \<and> unat (offset al4) \<le> opt_col))"
  proof (cases "alloc_ok (4 * (subquery_len al3 + 4))")
    case False
    then show ?thesis by (simp add: asw_trace_def)
  next
    case True
    from asw_trace_ok [of al3 Q N opt_col alloc_ok, OF m Q(2) c col N(2) True]
    show ?thesis
    proof
      assume "asw_trace alloc_ok al3 = Some (Inl CigarOverflow)"
      then show ?thesis by simp
    next
      assume "\<exists>buf b n. asw_trace alloc_ok al3
            = Some (Inr (al3\<lparr>rcigar := buf, offset := word_of_int n, cigar_begin := b,
                             cigar_end := int Q + 2\<rparr>))
          \<and> length buf = Q + 4 \<and> 0 \<le> b \<and> b \<le> int Q + 2
          \<and> 0 \<le> n \<and> n \<le> int opt_col
          \<and> query_consumed (cells buf (b - 1) (int Q + 1)) = Q"
      then obtain buf' b n where
        r: "asw_trace alloc_ok al3
            = Some (Inr (al3\<lparr>rcigar := buf', offset := word_of_int n, cigar_begin := b,
                             cigar_end := int Q + 2\<rparr>))"
        and n: "0 \<le> n" "n \<le> int opt_col"
        by blast
      from n c28 have "n < 2 ^ 28" by simp
      with n have "unat (word_of_int n :: size_t) = nat n" by (intro unat_word_of_int_64)
      with n have "unat (offset (al3\<lparr>rcigar := buf', offset := word_of_int n, cigar_begin := b,
                             cigar_end := int Q + 2\<rparr>)) \<le> opt_col"
        by simp
      with r show ?thesis by blast
    qed
  qed
  with A(1) loop show ?thesis unfolding s_def al3_def by blast
qed

text \<open>
  The engine with cheap deletions, reference \<^verbatim>\<open>ACACACA\<close> against query \<^verbatim>\<open>AAAA\<close>, from
  the last column: the loop returns in row 0 and column 0 after it has stored once outside
  the buffer, and \<^verbatim>\<open>asw_trace\<close> reports that.
\<close>

theorem trace_loop_terminates_witness:
  "asw_align_init ex_del_engine = Inr ex_del_init
   \<and> asw_align ex_del_init = Inr ex_del_aligned
   \<and> unat (subquery_len ex_del_engine) = 4
   \<and> unat (subdb_len ex_del_engine) = 7
   \<and> trace_matrix_ok (matTra ex_del_aligned) 4 7
   \<and> (\<exists>s'. trace_loop (matTra ex_del_aligned) ex_del_start = Some (Inr s')
          \<and> t_m1 s' = 0 \<and> 0 \<le> t_n1 s' \<and> t_n1 s' \<le> 7)
   \<and> map_option (map_sum id (\<lambda>s. (t_m1 s, t_n1 s, t_rc s, t_over s)))
        (trace_loop (matTra ex_del_aligned) ex_del_start) = Some (Inr (0, 0, - 2, True))
   \<and> asw_trace ex_alloc (ex_del_aligned\<lparr>opt_score_col := 7\<rparr>) = Some (Inl CigarOverflow)"
proof -
  have h1: "asw_align_init ex_del_engine = Inr ex_del_init"
    by code_simp
  have h2: "asw_align ex_del_init = Inr ex_del_aligned"
    by code_simp
  have h3: "unat (subquery_len ex_del_engine) = 4"
    by code_simp
  have h4: "unat (subdb_len ex_del_engine) = 7"
    by code_simp
  have v: "map_option (map_sum id (\<lambda>s. (t_m1 s, t_n1 s, t_rc s, t_over s)))
        (trace_loop (matTra ex_del_aligned) ex_del_start) = Some (Inr (0, 0, - 2, True))"
    by code_simp
  have w: "asw_trace ex_alloc (ex_del_aligned\<lparr>opt_score_col := 7\<rparr>) = Some (Inl CigarOverflow)"
    by code_simp
  have b: "(4 :: nat) < 2 ^ 28" "(7 :: nat) < 2 ^ 28" "(7 :: nat) \<le> 7" by simp_all
  from trace_loop_terminates [OF disjI1 [OF h1] h2 h3 b(1) h4 b(2,3),
      of 5 "replicate 8 0" False ex_alloc]
  have "trace_matrix_ok (matTra ex_del_aligned) 4 7
    \<and> (\<exists>s'. trace_loop (matTra ex_del_aligned) ex_del_start = Some (Inr s')
          \<and> t_m1 s' = 0 \<and> 0 \<le> t_n1 s' \<and> t_n1 s' \<le> 7)"
    by (simp add: ex_del_start_def)
  with h1 h2 h3 h4 v w show ?thesis by blast
qed

subsection \<open>A deletion run of \<open>2 ^ 28\<close> columns\<close>

text \<open>
  Row 1 of the matrix when the reference matches the query base in column 1 only, the
  scores of row 0 are the column numbers and the penalties are those of the engine above
  at quality 40: from column 2 on every cell is a deletion that extends the run opened in
  column 2, and after column \<open>n\<close> the counter \<^verbatim>\<open>cD\<close> is \<open>n - 1\<close>.
\<close>

lemma del_run_row:
  fixes e :: row_env and s0 :: row_state
  assumes e: "e_GAP_OPEN_EXTEND e = 1" "e_GAP_EXTEND e = 1" "e_gopen_pen e = 11"
      "e_gext_pen e = 11" "e_match_pen e = 0" "e_mismatch_pen e = 40"
    and rows: "\<forall>j \<le> N. e_vecPen_m e ! j = int j" "\<forall>j \<le> N. e_vecIns_m e ! j = int j"
    and chars: "is_seq_match e 0" "\<forall>n. 1 \<le> n \<and> n < N \<longrightarrow> \<not> is_seq_match e n"
    and s0: "storedDel_score s0 = 11" "vecPen_m1 s0 ! 0 = 11" "N < length (vecPen_m1 s0)"
      "N < length (rowTra s0)"
    and n: "1 \<le> n" "n \<le> N"
  shows "storedDel_score (fold (align_cell e) [0..<n] s0) = (if n = 1 then 12 else int n - 1)
    \<and> cD (fold (align_cell e) [0..<n] s0) = (if n = 1 then cD s0 + 1 else word_of_nat (n - 1))
    \<and> vecPen_m1 (fold (align_cell e) [0..<n] s0) ! n = int n - 1
    \<and> (2 \<le> n \<longrightarrow> rowTra (fold (align_cell e) [0..<n] s0) ! n
                     = cigar_pack (word_of_nat (n - 1)) BAM_CDEL)"
  using n
proof (induction n rule: nat_induct_at_least)
  case base
  from base rows have r: "e_vecPen_m e ! 0 = 0" "e_vecPen_m e ! 1 = 1" "e_vecIns_m e ! 1 = 1"
    by simp_all
  have c: "wD e s0 0 = 12" "cD_next e s0 0 = cD s0 + 1" "wI e 0 = 12" "wM e 0 = 0"
    using e r s0 chars(1) by (simp_all add: wD_def cD_next_def wD_open_def wD_extend_def wI_def
        wI_open_def wI_extend_def wM_def)
  from base s0 have l: "0 + 1 < length (vecPen_m1 s0)" by simp
  show ?case
    using align_cell_vecPen [OF l, of e] c
    by (simp add: align_cell_fields(1,2))
next
  case (Suc n)
  define s where "s = fold (align_cell e) [0..<n] s0"
  from Suc have IH: "storedDel_score s = (if n = 1 then 12 else int n - 1)"
    "cD s = (if n = 1 then cD s0 + 1 else word_of_nat (n - 1))"
    "vecPen_m1 s ! n = int n - 1"
    by (simp_all add: s_def)
  have fold: "fold (align_cell e) [0..<Suc n] s0 = align_cell e n s"
    by (simp add: s_def)
  from Suc rows have r: "e_vecPen_m e ! n = int n" "e_vecPen_m e ! (n + 1) = int n + 1"
    "e_vecIns_m e ! (n + 1) = int n + 1"
    by simp_all
  from Suc chars(2) have nm: "\<not> is_seq_match e n" by simp
  from Suc(1) have w: "(word_of_nat (n - 1) :: 32 word) + 1 = word_of_nat n"
    by (cases n) simp_all
  have c: "wD e s n = int n" "cD_next e s n = word_of_nat n" "wI e n = int n + 12"
    "wM e n = int n + 40"
    using e r IH nm w Suc(1) by (simp_all add: wD_def cD_next_def wD_open_def wD_extend_def wI_def
        wI_open_def wI_extend_def wM_def)
  from Suc s0 have l: "n + 1 < length (vecPen_m1 s)" "n + 1 < length (rowTra s)"
    by (simp_all add: s_def)
  have a: "vecPen_m1 (align_cell e n s) ! (n + 1) = int n"
    using align_cell_vecPen [OF l(1), of e] c by simp
  have b: "rowTra (align_cell e n s) ! (n + 1) = cigar_pack (word_of_nat n) BAM_CDEL"
    using align_cell_rowTra [OF l(2), of e] c by simp
  show ?case
    unfolding fold using a b c Suc(1)
    by (simp add: align_cell_fields(1,2))
qed

lemma asw_align_init_shape:
  assumes inb: "init_in_bounds al"
  shows "\<exists>A B C R. asw_align_init al
           = Inr (al\<lparr>vecPen_m_act := A, vecIns_m_act := B, I_ext_m_act := C,
                      matTra := (matTra al)[0 := R]\<rparr>)
      \<and> length A = length (vecPen_m_act al) \<and> length B = length (vecIns_m_act al)
      \<and> length C = length (I_ext_m_act al)
      \<and> A ! 0 = 0
      \<and> B ! 0 = int32 (int32 (pen_at (gopen_penalty al) (phred_offset al) (qual al ! subqual al)
                                - pen_at (gext_penalty al) (phred_offset al) (qual al ! subqual al)))
      \<and> (\<forall>j. 1 \<le> j \<and> j \<le> unat (subdb_len al) \<longrightarrow>
            A ! j = int32 (int32 (int32 (GAP_OPEN_EXTEND al - GAP_EXTEND al)) + int j * GAP_EXTEND al)
          \<and> B ! j = int32 (int32 (int32 (int32 (GAP_OPEN_EXTEND al - GAP_EXTEND al))
                                     + int j * GAP_EXTEND al)
                     + int32 (pen_at (gopen_penalty al) (phred_offset al) (qual al ! subqual al)
                                - pen_at (gext_penalty al) (phred_offset al) (qual al ! subqual al))))"
proof -
  define N where "N = unat (subdb_len al)"
  from inb have lens: "N < length (vecPen_m_act al)" "N < length (vecIns_m_act al)"
    "N < length (I_ext_m_act al)" "0 < length (matTra al)" "N < length (matTra al ! 0)"
    by (simp_all add: init_in_bounds_def N_def)
  define g0 where "g0 = int32 (pen_at (gopen_penalty al) (phred_offset al) (qual al ! subqual al)
                      - pen_at (gext_penalty al) (phred_offset al) (qual al ! subqual al))"
  define s0 where "s0 =
      \<lparr>i_storedDel_score =
         int32 ((vecPen_m_act al)[0 := 0] ! 0 + int32 (GAP_OPEN_EXTEND al - GAP_EXTEND al)),
       i_vecPen_m = (vecPen_m_act al)[0 := 0],
       i_vecIns_m = (vecIns_m_act al)[0 := int32 ((vecPen_m_act al)[0 := 0] ! 0 + g0)],
       i_rowTra = (matTra al ! 0)[0 := cigar_pack 0 BAM_CSEQ_MATCH],
       i_I_ext_m = (I_ext_m_act al)[0 := 0]\<rparr>"
  define s where "s = fold (init_step (GAP_EXTEND al) g0) [0..<N] s0"
  have l0: "N < length (i_vecPen_m s0)" "N < length (i_vecIns_m s0)"
    "N < length (i_rowTra s0)" "N < length (i_I_ext_m s0)"
    using lens by (simp_all add: s0_def)
  note F = init_step_fold [OF l0, of "GAP_EXTEND al" g0, folded s_def]
  from lens have p: "0 < length (vecPen_m_act al)" "0 < length (vecIns_m_act al)" by auto
  have z: "i_vecPen_m s0 ! 0 = 0" "i_vecIns_m s0 ! 0 = int32 g0"
    "i_storedDel_score s0 = int32 (int32 (GAP_OPEN_EXTEND al - GAP_EXTEND al))"
    using p by (simp_all add: s0_def)
  have v0: "i_vecPen_m s ! 0 = 0" "i_vecIns_m s ! 0 = int32 g0"
    using F z by auto
  have v: "i_vecPen_m s ! j
        = int32 (int32 (int32 (GAP_OPEN_EXTEND al - GAP_EXTEND al)) + int j * GAP_EXTEND al)
      \<and> i_vecIns_m s ! j
        = int32 (int32 (int32 (int32 (GAP_OPEN_EXTEND al - GAP_EXTEND al)) + int j * GAP_EXTEND al)
                 + g0)"
    if "1 \<le> j \<and> j \<le> N" for j
    using F that unfolding z(3) by blast
  have r: "asw_align_init al
      = Inr (al\<lparr>vecPen_m_act := i_vecPen_m s, vecIns_m_act := i_vecIns_m s,
                 I_ext_m_act := i_I_ext_m s, matTra := (matTra al)[0 := i_rowTra s]\<rparr>)"
    using inb by (simp add: asw_align_init_def Let_def s_def s0_def g0_def N_def)
  from F have len: "length (i_vecPen_m s) = length (vecPen_m_act al)"
    "length (i_vecIns_m s) = length (vecIns_m_act al)"
    "length (i_I_ext_m s) = length (I_ext_m_act al)"
    by (simp_all add: s0_def)
  show ?thesis
    unfolding r using len v v0
    apply -
    apply (rule exI)+
    apply (intro conjI)
    apply (rule refl)
    apply (simp_all add: N_def g0_def)
    done
qed

lemma asw_align_returns: "align_in_bounds al \<Longrightarrow> \<exists>al'. asw_align al = Inr al'"
  by (simp add: asw_align_def Let_def)

lemma asw_align_keeps:
  assumes "asw_align al = Inr al'"
  shows "subquery_len al' = subquery_len al" "rcigar al' = rcigar al"
  using assms by (auto simp: asw_align_def Let_def split: if_splits)

lemma ex_long_init_shape:
  "\<exists>A B C R. ex_long_init
       = ex_long_engine\<lparr>vecPen_m_act := A, vecIns_m_act := B, I_ext_m_act := C,
                        matTra := (matTra ex_long_engine)[0 := R]\<rparr>
     \<and> asw_align_init ex_long_engine = Inr ex_long_init
     \<and> length A = 268435458 \<and> length B = 268435458 \<and> length C = 268435458
     \<and> (\<forall>j \<le> 268435457. A ! j = int j \<and> B ! j = int j)"
proof -
  have inb: "init_in_bounds ex_long_engine"
    by (simp add: init_in_bounds_def ex_long_engine_def ex_tables_def asw_alloc_def
        pen_index_ok_def)
  have g: "int32 (pen_at (gopen_penalty ex_long_engine) (phred_offset ex_long_engine)
                (qual ex_long_engine ! subqual ex_long_engine)
             - pen_at (gext_penalty ex_long_engine) (phred_offset ex_long_engine)
                (qual ex_long_engine ! subqual ex_long_engine)) = 0"
    "int32 (GAP_OPEN_EXTEND ex_long_engine - GAP_EXTEND ex_long_engine) = 0"
    "GAP_EXTEND ex_long_engine = 1"
    "int32 0 = 0"
    by (simp_all add: ex_long_engine_def ex_tables_def asw_alloc_def pen_at_def int32_def)
  note S = asw_align_init_shape [OF inb, unfolded g(1,2), unfolded g(3,4)]
  from S obtain A B C R where
    r: "asw_align_init ex_long_engine
           = Inr (ex_long_engine\<lparr>vecPen_m_act := A, vecIns_m_act := B, I_ext_m_act := C,
                      matTra := (matTra ex_long_engine)[0 := R]\<rparr>)"
    and l: "length A = length (vecPen_m_act ex_long_engine)"
      "length B = length (vecIns_m_act ex_long_engine)"
      "length C = length (I_ext_m_act ex_long_engine)"
    and v0: "A ! 0 = 0" "B ! 0 = 0"
    and v: "\<forall>j. 1 \<le> j \<and> j \<le> unat (subdb_len ex_long_engine)
              \<longrightarrow> A ! j = int32 (0 + int j * 1) \<and> B ! j = int32 (int32 (0 + int j * 1) + 0)"
    by blast
  have n: "unat (subdb_len ex_long_engine) = 268435457"
    "length (vecPen_m_act ex_long_engine) = 268435458"
    "length (vecIns_m_act ex_long_engine) = 268435458"
    "length (I_ext_m_act ex_long_engine) = 268435458"
    by (simp_all add: ex_long_engine_def ex_tables_def asw_alloc_def)
  have i: "ex_long_init = ex_long_engine\<lparr>vecPen_m_act := A, vecIns_m_act := B, I_ext_m_act := C,
                      matTra := (matTra ex_long_engine)[0 := R]\<rparr>"
    by (simp add: ex_long_init_def r)
  have w: "A ! j = int j \<and> B ! j = int j" if "j \<le> 268435457" for j
  proof (cases "j = 0")
    case True
    with v0 show ?thesis by simp
  next
    case False
    from that have "int_fits (int j)" by (simp add: int_fits_def)
    then have "int32 (int j) = int j" by (rule int32_fits)
    with v False that show ?thesis by (simp add: n)
  qed
  show ?thesis
    using i r l w unfolding n
    by (intro exI [of _ A] exI [of _ B] exI [of _ C] exI [of _ R]) simp
qed

lemma ex_long_row:
  "asw_align_init ex_long_engine = Inr ex_long_init"
  "asw_align ex_long_init = Inr ex_long_aligned"
  "length (matTra ex_long_aligned) = 2"
  "length (matTra ex_long_aligned ! 1) = 268435458"
  "matTra ex_long_aligned ! 1 ! 268435457 = cigar_pack 268435456 BAM_CDEL"
  "subquery_len ex_long_aligned = 1"
  "rcigar ex_long_aligned = []"
proof -
  from ex_long_init_shape obtain A B C R where
    i: "ex_long_init = ex_long_engine\<lparr>vecPen_m_act := A, vecIns_m_act := B, I_ext_m_act := C,
                        matTra := (matTra ex_long_engine)[0 := R]\<rparr>"
    and r: "asw_align_init ex_long_engine = Inr ex_long_init"
    and l: "length A = 268435458" "length B = 268435458" "length C = 268435458"
    and v: "\<forall>j \<le> 268435457. A ! j = int j \<and> B ! j = int j"
    by blast
  show "asw_align_init ex_long_engine = Inr ex_long_init" by (fact r)
  define l0 where "l0 = align_locals_of ex_long_init"
  define e where "e = row_env_of ex_long_init l0 0"
  define s0 where "s0 = row_start e l0 (0 + 1)"
  have f: "subquery_len ex_long_init = 1" "unat (subdb_len ex_long_init) = 268435457"
    "rcigar ex_long_init = []"
    by (simp_all add: i ex_long_engine_def ex_tables_def asw_alloc_def)
  have inb: "align_in_bounds ex_long_init"
    using l by (simp add: align_in_bounds_def i ex_long_engine_def ex_tables_def asw_alloc_def
        pen_index_ok_def)
  from asw_align_returns [OF inb] obtain al' where a: "asw_align ex_long_init = Inr al'" by blast
  then have al': "al' = ex_long_aligned" by (simp add: ex_long_aligned_def)
  from a show a2: "asw_align ex_long_init = Inr ex_long_aligned" by (simp add: al')
  from asw_align_keeps [OF a2] f show "subquery_len ex_long_aligned = 1"
    "rcigar ex_long_aligned = []" by simp_all
  have mat: "matTra ex_long_aligned = l_matTra (fold (align_row ex_long_init) [0..<1] l0)"
    using asw_align_matTra [OF a2] by (simp add: f l0_def)
  have ml: "length (l_matTra l0) = 2" "length (l_matTra l0 ! 1) = 268435458"
    by (simp_all add: l0_def align_locals_of_def i ex_long_engine_def ex_tables_def asw_alloc_def)
  show "length (matTra ex_long_aligned) = 2" by (simp add: mat ml)
  have row: "matTra ex_long_aligned ! 1
      = rowTra (fold (align_cell e) [0..<268435457] s0)"
    unfolding mat using align_rows_at [of 0 1 l0 ex_long_init] ml
    by (simp add: f e_def s0_def)
  show "length (matTra ex_long_aligned ! 1) = 268435458"
    unfolding row using ml by (simp add: s0_def row_start_def Let_def)
  have env: "e_GAP_OPEN_EXTEND e = 1" "e_GAP_EXTEND e = 1" "e_gopen_pen e = 11"
      "e_gext_pen e = 11" "e_match_pen e = 0" "e_mismatch_pen e = 40"
      "e_vecPen_m e = A" "e_vecIns_m e = B"
      "e_cq e = CHR ''A''" "e_subdb e = CHR ''A'' # replicate 268435456 CHR ''C''"
    by (simp_all add: e_def row_env_of_def Let_def l0_def align_locals_of_def i
        ex_long_engine_def ex_tables_def asw_alloc_def pen_at_def)
  from v have rows: "\<forall>j \<le> 268435457. e_vecPen_m e ! j = int j"
    "\<forall>j \<le> 268435457. e_vecIns_m e ! j = int j"
    by (simp_all add: env)
  have chars: "is_seq_match e 0" "\<forall>n. 1 \<le> n \<and> n < 268435457 \<longrightarrow> \<not> is_seq_match e n"
    by (auto simp: is_seq_match_def env IS_MATCH_def AMBIGUOUS_BASE_def nth_Cons')
  from v have b0: "B ! 0 = 0" by simp
  have st: "storedDel_score s0 = 11" "vecPen_m1 s0 ! 0 = 11"
    "268435457 < length (vecPen_m1 s0)" "268435457 < length (rowTra s0)"
    using b0 ml
    by (simp_all add: s0_def row_start_def Let_def env l0_def align_locals_of_def i
        ex_long_engine_def ex_tables_def asw_alloc_def)
  from del_run_row [OF env(1-6) rows chars st, of 268435457]
  have "rowTra (fold (align_cell e) [0..<268435457] s0) ! 268435457
      = cigar_pack (word_of_nat (268435457 - 1)) BAM_CDEL"
    by simp
  then show "matTra ex_long_aligned ! 1 ! 268435457 = cigar_pack 268435456 BAM_CDEL"
    unfolding row by simp
qed

text \<open>
  A deletion cell of run length 0 (the packed value 2) below row 0 holds the loop: the
  iteration leaves \<^verbatim>\<open>m1\<close>, \<^verbatim>\<open>n1\<close> and \<^verbatim>\<open>cigar\<close> as they were.
\<close>

lemma trace_loop_stuck:
  assumes "trace_loop mat s = Some y"
  shows "\<not> (0 < t_m1 s \<and> t_cigar s = 2 \<and> tra_in_bounds mat (t_m1 s) (t_n1 s)
           \<and> tra_at mat (t_m1 s) (t_n1 s) = 2)"
proof (rule trace_loop.raw_induct
    [where P = "\<lambda>mat s y. \<not> (0 < t_m1 s \<and> t_cigar s = 2 \<and> tra_in_bounds mat (t_m1 s) (t_n1 s)
           \<and> tra_at mat (t_m1 s) (t_n1 s) = 2)", OF _ assms])
  fix f :: "cigar_t list list \<Rightarrow> trace_state \<Rightarrow> (error + trace_state) option"
    and mat s and y :: "error + trace_state"
  assume IH: "\<And>m b y. f m b = Some y \<Longrightarrow>
      \<not> (0 < t_m1 b \<and> t_cigar b = 2 \<and> tra_in_bounds m (t_m1 b) (t_n1 b)
           \<and> tra_at m (t_m1 b) (t_n1 b) = 2)"
    and body: "(if \<not> t_m1 s > 0 then Some (Inr s)
      else
        let state = cigar_op (t_cigar s); z = cigar_len (t_cigar s)
        in if state = BAM_CSEQ_MATCH \<or> state = BAM_CSEQ_MISMATCH then
             Option.bind (match_run mat state (0, t_m1 s, t_n1 s, t_cigar s))
               (\<lambda>r. case r of
                  Inl e \<Rightarrow> Some (Inl e)
                | Inr (num_matches, m1', n1', cigar') \<Rightarrow>
                    f mat
                      ((store_rc (cigar_pack num_matches state) s)
                         \<lparr>t_m1 := m1', t_n1 := n1', t_cigar := cigar'\<rparr>))
           else if state = BAM_CDEL then
             (if \<not> tra_in_bounds mat (t_m1 s) (t_n1 s - uint z) then Some (Inl OutOfBounds)
              else f mat
                     ((store_rc (t_cigar s) s)
                        \<lparr>t_n1 := t_n1 s - uint z,
                         t_cigar := tra_at mat (t_m1 s) (t_n1 s - uint z)\<rparr>))
           else if state = BAM_CINS then
             (if \<not> tra_in_bounds mat (t_m1 s - uint z) (t_n1 s) then Some (Inl OutOfBounds)
              else f mat
                     ((store_rc (t_cigar s) s)
                        \<lparr>t_m1 := t_m1 s - uint z,
                         t_cigar := tra_at mat (t_m1 s - uint z) (t_n1 s)\<rparr>))
           else Some (Inl CorruptTrace)) = Some y"
  show "\<not> (0 < t_m1 s \<and> t_cigar s = 2 \<and> tra_in_bounds mat (t_m1 s) (t_n1 s)
           \<and> tra_at mat (t_m1 s) (t_n1 s) = 2)"
  proof
    assume st: "0 < t_m1 s \<and> t_cigar s = 2 \<and> tra_in_bounds mat (t_m1 s) (t_n1 s)
           \<and> tra_at mat (t_m1 s) (t_n1 s) = 2"
    have c: "cigar_op (2 :: cigar_t) = BAM_CDEL" "cigar_len (2 :: cigar_t) = 0"
      by (simp_all add: cigar_op_def cigar_len_def bam_defs)
    define s1 where "s1 = (store_rc (t_cigar s) s)
        \<lparr>t_n1 := t_n1 s - uint (cigar_len (t_cigar s)),
         t_cigar := tra_at mat (t_m1 s) (t_n1 s - uint (cigar_len (t_cigar s)))\<rparr>"
    from body st have "f mat s1 = Some y"
      by (simp add: c Let_def op_distinct s1_def)
    from IH [OF this] have "\<not> (0 < t_m1 s1 \<and> t_cigar s1 = 2
           \<and> tra_in_bounds mat (t_m1 s1) (t_n1 s1) \<and> tra_at mat (t_m1 s1) (t_n1 s1) = 2)" .
    with st show False
      by (simp add: s1_def c)
  qed
qed

text \<open>
  Claim C10 as stated, for sub-views of any length, fails. In global mode, with the tables
  and gap constants of \<^verbatim>\<open>asw_init(al, -10, 30, 1, 1)\<close>, the query \<^verbatim>\<open>A\<close> aligns to a
  reference \<^verbatim>\<open>A\<close> followed by \<open>2 ^ 28\<close> times \<^verbatim>\<open>C\<close> as one match and one run of \<open>2 ^ 28\<close>
  deletions. Both initialiser and \<^verbatim>\<open>asw_align\<close> succeed, and the cell of row 1 in the last
  column, \<open>2 ^ 28 + 1\<close>, is \<^verbatim>\<open>(cD << 4) | BAM_CDEL\<close> with \<^verbatim>\<open>cD\<close> \<open>= 2 ^ 28\<close>: its operation
  is a deletion and its run length, the upper 28 bits, is 0. Started there, as
  \<^verbatim>\<open>asw_trace\<close> starts it in global mode, the loop subtracts 0 from \<^verbatim>\<open>n1\<close> and reads the
  same cell again: it does not return, and neither does \<^verbatim>\<open>asw_trace\<close>.
\<close>

theorem trace_loop_long_counterexample:
  "asw_align_init ex_long_engine = Inr ex_long_init
   \<and> asw_align ex_long_init = Inr ex_long_aligned
   \<and> unat (subquery_len ex_long_engine) = 1
   \<and> unat (subdb_len ex_long_engine) = 268435457
   \<and> cigar_op (tra_at (matTra ex_long_aligned) 1 268435457) = BAM_CDEL
   \<and> unat (cigar_len (tra_at (matTra ex_long_aligned) 1 268435457)) = 0
   \<and> trace_loop (matTra ex_long_aligned)
       \<lparr>t_m1 = 1, t_n1 = 268435457, t_cigar = tra_at (matTra ex_long_aligned) 1 268435457,
        t_rc = 2, t_rcigar = replicate 5 0, t_over = False\<rparr> = None
   \<and> asw_trace ex_alloc (ex_long_aligned\<lparr>opt_score_col := 268435457\<rparr>) = None"
proof -
  have c: "cigar_pack 268435456 BAM_CDEL = 2" by (simp add: cigar_pack_def bam_defs)
  have t: "tra_at (matTra ex_long_aligned) 1 268435457 = 2"
    "tra_in_bounds (matTra ex_long_aligned) 1 268435457"
    using ex_long_row(3,4,5) by (simp_all add: tra_at_def tra_in_bounds_def c)
  have d: "cigar_op (2 :: cigar_t) = BAM_CDEL" "cigar_len (2 :: cigar_t) = 0"
    by (simp_all add: cigar_op_def cigar_len_def bam_defs)
  have stuck: "trace_loop (matTra ex_long_aligned)
       \<lparr>t_m1 = 1, t_n1 = 268435457, t_cigar = 2, t_rc = rc, t_rcigar = buf, t_over = False\<rparr>
         = None" for rc buf
  proof -
    have "trace_loop (matTra ex_long_aligned)
       \<lparr>t_m1 = 1, t_n1 = 268435457, t_cigar = 2, t_rc = rc, t_rcigar = buf, t_over = False\<rparr>
         \<noteq> Some y" for y
      using trace_loop_stuck [of "matTra ex_long_aligned"
          "\<lparr>t_m1 = 1, t_n1 = 268435457, t_cigar = 2, t_rc = rc, t_rcigar = buf, t_over = False\<rparr>" y] t
      by auto
    then show ?thesis
      by (cases "trace_loop (matTra ex_long_aligned)
       \<lparr>t_m1 = 1, t_n1 = 268435457, t_cigar = 2, t_rc = rc, t_rcigar = buf, t_over = False\<rparr>") auto
  qed
  have f: "unat (subquery_len ex_long_engine) = 1" "unat (subdb_len ex_long_engine) = 268435457"
    by (simp_all add: ex_long_engine_def ex_tables_def asw_alloc_def)
  have m: "sint (ucast (1 :: size_t) :: 32 word) = 1"
    "sint (ucast (268435457 :: size_t) :: 32 word) = 268435457"
    by simp_all
  have tr: "asw_trace ex_alloc (ex_long_aligned\<lparr>opt_score_col := 268435457\<rparr>) = None"
    using t by (simp add: asw_trace_def Let_def ex_long_row(6,7) ex_alloc_def m stuck)
  from ex_long_row(1,2) f t d stuck tr show ?thesis by simp
qed

section \<open>asw\_softclip\_trace twice\<close>

text \<open>
  Claim C6, evaluated. Reference \<^verbatim>\<open>ACGT\<close> against query \<^verbatim>\<open>CCGT\<close>, global: the trace is
  \<^verbatim>\<open>1X 3=\<close> with offset 0. The first \<^verbatim>\<open>asw_softclip_trace\<close> gives \<^verbatim>\<open>1S 3=\<close> with
  offset 1. The second leaves the range and the cells as they are and moves the offset to
  2: the scan from the head adds the length of the \<^verbatim>\<open>S\<close> it wrote before, under the test
  \<^verbatim>\<open>state != BAM_CINS\<close> whose comment names \<^verbatim>\<open>BAM_CDEL, BAM_CSEQ_MISMATCH\<close> only.
\<close>

theorem asw_softclip_trace_twice:
  "asw_trace ex_alloc (snd (Qxalign_align False (ex_engine ''ACGT'' ''CCGT'')))
     = Some (Inr (ex_traced ''ACGT'' ''CCGT''))
   \<and> cigar_of (ex_traced ''ACGT'' ''CCGT'')
     = [cigar_pack 1 BAM_CSEQ_MISMATCH, cigar_pack 3 BAM_CSEQ_MATCH]
   \<and> offset (ex_traced ''ACGT'' ''CCGT'') = 0
   \<and> asw_softclip_trace (ex_traced ''ACGT'' ''CCGT'') = Inr (ex_clipped ''ACGT'' ''CCGT'')
   \<and> cigar_of (ex_clipped ''ACGT'' ''CCGT'')
     = [cigar_pack 1 BAM_CSOFT_CLIP, cigar_pack 3 BAM_CSEQ_MATCH]
   \<and> offset (ex_clipped ''ACGT'' ''CCGT'') = 1
   \<and> asw_softclip_trace (ex_clipped ''ACGT'' ''CCGT'')
     = Inr (ex_clipped ''ACGT'' ''CCGT''\<lparr>offset := 2\<rparr>)"
  by code_simp

section \<open>asw\_compact\_trace\<close>











declare compact_inner.simps [simp del] compact_outer.simps [simp del]









lemma run_lengths_append [simp]: "run_lengths (xs @ ys) = run_lengths xs + run_lengths ys"
  by (simp add: run_lengths_def)





end
